theory Spec2Isabelle
  imports Main
begin

section \<open>Python values, strings and errors\<close>

text \<open>
  A Python \<open>str\<close> is a sequence of Unicode code points. A code point is a natural number;
  a string is the list of its code points (\<open>48\<close> is \<open>0\<close>, \<open>57\<close> is \<open>9\<close>, \<open>75\<close> is \<open>K\<close>,
  \<open>45\<close> is \<open>-\<close>, \<open>46\<close> is \<open>.\<close>, \<open>43\<close> is \<open>+\<close>, \<open>39\<close> is the apostrophe).
\<close>

type_synonym pychar = nat
type_synonym pystr = "pychar list"

text \<open>The values a caller can hand to the validator: a string, or something that is not one.\<close>

datatype pyval = PyStr pystr | PyInt int | PyNone

text \<open>
  The exceptions of \<open>validators.py\<close>: \<open>rest_framework.exceptions.ValidationError\<close> with its
  message, and Python's built-in \<open>ValueError\<close>.
\<close>

datatype error = ValidationError pystr | ValueError

text \<open>An ASCII literal as a list of code points.\<close>

definition cps :: "string \<Rightarrow> pystr" where
  "cps s = map of_char s"

subsection \<open>The Unicode tables of the runtime\<close>

text \<open>
  \<open>str.strip\<close>, \<open>str.upper\<close>, \<open>str.isdigit\<close> and \<open>int\<close> read the Unicode character
  database that the Python runtime ships. On ASCII their behaviour is fixed and is written
  out below; for the code points from 128 on it is a parameter of the model:
  whether the code point is white space, its full upper-case mapping (one code point or
  several), whether it is a digit for \<open>isdigit\<close> (Numeric_Type Digit or Decimal), and its
  value when \<open>int\<close> accepts it (Numeric_Type Decimal only).
\<close>

record ucd =
  uc_isspace :: "pychar \<Rightarrow> bool"
  uc_upper :: "pychar \<Rightarrow> pystr"
  uc_isdigit :: "pychar \<Rightarrow> bool"
  uc_decimal :: "pychar \<Rightarrow> int option"

definition py_isspace :: "ucd \<Rightarrow> pychar \<Rightarrow> bool" where
  "py_isspace U c =
     (if c < 128 then (9 \<le> c \<and> c \<le> 13) \<or> (28 \<le> c \<and> c \<le> 32) else uc_isspace U c)"

definition py_upper_char :: "ucd \<Rightarrow> pychar \<Rightarrow> pystr" where
  "py_upper_char U c =
     (if c < 128 then (if 97 \<le> c \<and> c \<le> 122 then [c - 32] else [c]) else uc_upper U c)"

definition py_isdigit_char :: "ucd \<Rightarrow> pychar \<Rightarrow> bool" where
  "py_isdigit_char U c = (if c < 128 then 48 \<le> c \<and> c \<le> 57 else uc_isdigit U c)"

text \<open>\<open>int(c)\<close> for a string of the single character \<open>c\<close>.\<close>

definition py_int_char :: "ucd \<Rightarrow> pychar \<Rightarrow> error + int" where
  "py_int_char U c =
     (if c < 128 then (if 48 \<le> c \<and> c \<le> 57 then Inr (int c - 48) else Inl ValueError)
      else (case uc_decimal U c of None \<Rightarrow> Inl ValueError | Some d \<Rightarrow> Inr d))"

text \<open>\<open>s.strip()\<close>: white space is dropped at both ends.\<close>

definition py_strip :: "ucd \<Rightarrow> pystr \<Rightarrow> pystr" where
  "py_strip U s = rev (dropWhile (py_isspace U) (rev (dropWhile (py_isspace U) s)))"

text \<open>\<open>s.upper()\<close>: every character is replaced by its upper-case mapping.\<close>

definition py_upper :: "ucd \<Rightarrow> pystr \<Rightarrow> pystr" where
  "py_upper U s = concat (map (py_upper_char U) s)"

text \<open>\<open>s.isdigit()\<close>: at least one character, and all of them digits.\<close>

definition py_isdigit :: "ucd \<Rightarrow> pystr \<Rightarrow> bool" where
  "py_isdigit U s = (s \<noteq> [] \<and> list_all (py_isdigit_char U) s)"

text \<open>
  \<open>s.zfill(width)\<close>: zeros on the left up to \<open>width\<close>; a leading sign stays in front of
  the zeros.
\<close>

definition zfill :: "pystr \<Rightarrow> nat \<Rightarrow> pystr" where
  "zfill s width =
     (if width \<le> length s then s
      else (case s of
              [] \<Rightarrow> replicate width 48
            | c # rest \<Rightarrow>
                if c = 43 \<or> c = 45 then c # replicate (width - length s) 48 @ rest
                else replicate (width - length s) 48 @ s))"

text \<open>\<open>str(n)\<close> for an integer.\<close>

fun str_nat :: "nat \<Rightarrow> pystr" where
  "str_nat n = (if n < 10 then [48 + n] else str_nat (n div 10) @ [48 + n mod 10])"

declare str_nat.simps [simp del]

definition py_str :: "int \<Rightarrow> pystr" where
  "py_str i = (if i < 0 then 45 # str_nat (nat (- i)) else str_nat (nat i))"

text \<open>
  A table that is exact on the Latin-1 block (the code points 128 to 255, Unicode 14) and
  gives the code points beyond it no property: the no-break spaces 133 and 160, the
  superscript digits 178, 179 and 185 (digits for \<open>isdigit\<close>, refused by \<open>int\<close>), the
  lower-case letters 224 to 254 without the division sign 247, the micro sign 181, the
  sharp s 223 (upper case \<open>SS\<close>) and the y with diaeresis 255.
\<close>

definition latin1 :: ucd where
  "latin1 = \<lparr>
     uc_isspace = (\<lambda>c. c = 133 \<or> c = 160),
     uc_upper = (\<lambda>c. if c = 181 then [924]
                      else if c = 223 then [83, 83]
                      else if 224 \<le> c \<and> c \<le> 254 \<and> c \<noteq> 247 then [c - 32]
                      else if c = 255 then [376]
                      else [c]),
     uc_isdigit = (\<lambda>c. c = 178 \<or> c = 179 \<or> c = 185),
     uc_decimal = (\<lambda>c. None) \<rparr>"

section \<open>validators.py\<close>

subsection \<open>clean_rut\<close>

text \<open>\<open>re.sub(r'[.-]', '', rut)\<close>: every dot and every dash is removed.\<close>

definition re_sub_dot_dash :: "pystr \<Rightarrow> pystr" where
  "re_sub_dot_dash s = filter (\<lambda>c. c \<noteq> 46 \<and> c \<noteq> 45) s"

definition msg_not_str :: pystr where
  "msg_not_str = cps ''El RUT debe ser una cadena de texto.''"

definition clean_rut :: "ucd \<Rightarrow> pyval \<Rightarrow> error + pystr" where
  "clean_rut U rut =
     (case rut of
        PyStr s \<Rightarrow> Inr (py_upper U (py_strip U (re_sub_dot_dash s)))
      | _ \<Rightarrow> Inl (ValidationError msg_not_str))"

subsection \<open>calculate_dv\<close>

text \<open>
  \<open>map(int, rut_body[::-1])\<close> is lazy: \<open>int\<close> runs on each character only when the
  \<open>for\<close> loop asks for it, after the \<open>try\<close> block has been left. Neither \<open>zfill\<close> nor the
  construction of the \<open>map\<close> object raises on a string, so the \<open>except ValueError\<close> branch
  is never taken and a \<open>ValueError\<close> of \<open>int\<close> leaves the function from inside the loop.
  The loop carries \<open>factor\<close> and \<open>sum_digits\<close>.
\<close>

fun dv_loop :: "ucd \<Rightarrow> pystr \<Rightarrow> int \<Rightarrow> int \<Rightarrow> error + int" where
  "dv_loop U [] factor sum_digits = Inr sum_digits"
| "dv_loop U (c # cs) factor sum_digits =
     (case py_int_char U c of
        Inl e \<Rightarrow> Inl e
      | Inr digit \<Rightarrow>
          dv_loop U cs (if factor + 1 > 7 then 2 else factor + 1) (sum_digits + digit * factor))"

definition calculate_dv :: "ucd \<Rightarrow> pystr \<Rightarrow> error + pystr" where
  "calculate_dv U rut_body =
     (let rut_body = zfill rut_body 8;
          reversed_digits = rev rut_body
      in case dv_loop U reversed_digits 2 0 of
           Inl e \<Rightarrow> Inl e
         | Inr sum_digits \<Rightarrow>
             (let remainder = sum_digits mod 11;
                  dv = 11 - remainder
              in if dv = 10 then Inr [75]
                 else if dv = 11 then Inr [48]
                 else Inr (py_str dv)))"

subsection \<open>validate_chilean_rut\<close>

definition msg_too_short :: pystr where
  "msg_too_short = cps ''El RUT no es v'' @ [225] @ cps ''lido: demasiado corto.''"

definition msg_body :: pystr where
  "msg_body = cps ''El cuerpo del RUT debe contener solo n'' @ [250] @ cps ''meros.''"

definition msg_checksum :: "pystr \<Rightarrow> pystr \<Rightarrow> pystr" where
  "msg_checksum v dv_calculado =
     cps ''El RUT ingresado ('' @ [39] @ v @ [39] @ cps '') es inv'' @ [225]
       @ cps ''lido. El d'' @ [237] @ cps ''gito verificador correcto es '' @ [39]
       @ dv_calculado @ [39] @ cps ''.''"

definition validate_chilean_rut :: "ucd \<Rightarrow> pyval \<Rightarrow> error + pyval" where
  "validate_chilean_rut U v =
     (case clean_rut U v of
        Inl e \<Rightarrow> Inl e
      | Inr rut_limpio \<Rightarrow>
          if length rut_limpio < 2 then Inl (ValidationError msg_too_short)
          else
            (let dv_ingresado = [last rut_limpio];
                 rut_body = butlast rut_limpio
             in if \<not> py_isdigit U rut_body then Inl (ValidationError msg_body)
                else (case calculate_dv U rut_body of
                        Inl e \<Rightarrow> Inl e
                      | Inr dv_calculado \<Rightarrow>
                          if dv_calculado = dv_ingresado then Inr v
                          else Inl (ValidationError
                                 (msg_checksum (case v of PyStr s \<Rightarrow> s | _ \<Rightarrow> []) dv_calculado)))))"

subsection \<open>The check-digit algorithm as the specification words it\<close>

text \<open>
  The reference definition, on the digit values of the body: pad on the left with zeros to
  at least eight digits; weight the digits from the least significant one with
  2, 3, 4, 5, 6, 7, 2, 3, ...; \<open>remainder = sum mod 11\<close>, \<open>dv = 11 - remainder\<close>; \<open>K\<close> for 10,
  \<open>0\<close> for 11, else the digit as a character.
\<close>

definition is_ascii_digit :: "pychar \<Rightarrow> bool" where
  "is_ascii_digit c = (48 \<le> c \<and> c \<le> 57)"

definition digit_val :: "pychar \<Rightarrow> int" where
  "digit_val c = int c - 48"

definition spec_pad :: "int list \<Rightarrow> int list" where
  "spec_pad ds = replicate (8 - length ds) 0 @ ds"

definition spec_weight :: "nat \<Rightarrow> int" where
  "spec_weight i = 2 + int (i mod 6)"

definition spec_weighted_sum :: "int list \<Rightarrow> int" where
  "spec_weighted_sum ds = sum_list (map2 (*) (rev ds) (map spec_weight [0..<length ds]))"

definition spec_dv :: "pystr \<Rightarrow> pystr" where
  "spec_dv body =
     (let remainder = spec_weighted_sum (spec_pad (map digit_val body)) mod 11;
          dv = 11 - remainder
      in if dv = 10 then [75] else if dv = 11 then [48] else [nat (48 + dv)])"

subsection \<open>What idempotence of clean_rut needs from the Unicode tables\<close>

text \<open>
  Upper-casing is stable on the code points from 128 on: every code point of an upper-case
  mapping is its own upper case and is neither a dash nor a dot, and the mapping of a code
  point that is not white space is not empty and neither starts nor ends with white space.
  The Unicode character database has these properties (its upper-case mappings consist of
  upper-case or uncased letters and marks).
\<close>

definition upper_stable :: "ucd \<Rightarrow> bool" where
  "upper_stable U =
     (\<forall>c. 128 \<le> c \<longrightarrow>
        (\<forall>d \<in> set (uc_upper U c). d \<noteq> 45 \<and> d \<noteq> 46 \<and> py_upper_char U d = [d]) \<and>
        (\<not> uc_isspace U c \<longrightarrow>
           uc_upper U c \<noteq> [] \<and> \<not> py_isspace U (hd (uc_upper U c)) \<and>
           \<not> py_isspace U (last (uc_upper U c))))"

text \<open>A string that \<open>strip\<close> leaves alone: empty, or without white space at either end.\<close>

definition trimmed :: "ucd \<Rightarrow> pystr \<Rightarrow> bool" where
  "trimmed U s = (s = [] \<or> (\<not> py_isspace U (hd s) \<and> \<not> py_isspace U (last s)))"

section \<open>serializers.py: the date validators\<close>

text \<open>
  An aware \<open>datetime\<close> as Python holds it: the calendar date of its own time zone (as the
  day number \<open>toordinal()\<close>), the time of day in microseconds, and the offset of the time
  zone from UTC in microseconds. \<open>d.date()\<close> is the calendar date; \<open>a > b\<close> compares the
  instants.
\<close>

record datetime =
  ordinal :: int
  micros :: int
  utcoffset :: int










section \<open>Django models and REST framework serializers\<close>

subsection \<open>Values, rows and tables\<close>

text \<open>
  The values of model fields and of request payloads. A decimal with two decimal places is
  held in hundredths; a foreign key is the integer key of the row it points to. A
  \<open>dict\<close> (keyword arguments, a payload, validated data, a stored row) is an association
  list read with \<open>map_of\<close>; a table is the list of its rows, and the database gives the
  table for each model name.
\<close>

datatype val = VNone | VBool bool | VInt int | VDec int | VStr pystr | VTime datetime
  | VList "val list"

type_synonym data = "(string \<times> val) list"

type_synonym db = "string \<Rightarrow> data list"

subsection \<open>Model declarations\<close>

datatype dflt = NoDefault | Default val | DefaultNow

datatype ftype = AutoField | ForeignKey string | IntegerField | DecimalField nat nat
  | CharField | TextField | EmailField | BooleanField | DateTimeField

datatype validator = MinValueValidator int

text \<open>
  A model field with the options the source uses: \<open>default\<close> (\<open>DefaultNow\<close> is
  \<open>default=timezone.now\<close>), \<open>null\<close>, \<open>blank\<close>, \<open>unique\<close>, \<open>auto_now_add\<close>, \<open>choices\<close>
  (empty when there are none) and \<open>validators\<close>.
\<close>

record field =
  fname :: string
  ftype :: ftype
  fdefault :: dflt
  fnull :: bool
  fblank :: bool
  funique :: bool
  fauto_now_add :: bool
  fchoices :: "pystr list"
  fvalidators :: "validator list"

definition model_field :: "string \<Rightarrow> ftype \<Rightarrow> field" where
  "model_field n t = \<lparr>fname = n, ftype = t, fdefault = NoDefault, fnull = False, fblank = False,
     funique = False, fauto_now_add = False, fchoices = [], fvalidators = []\<rparr>"

record model =
  mname :: string
  mfields :: "field list"
  unique_together :: "string list list"

definition find_field :: "model \<Rightarrow> string \<Rightarrow> field option" where
  "find_field M f = find (\<lambda>fd. fname fd = f) (mfields M)"

subsection \<open>models.py\<close>

definition OrderStatus_choices :: "pystr list" where
  "OrderStatus_choices = [cps ''PENDIENTE'', cps ''ENVIADO'', cps ''ENTREGADO'', cps ''ANULADA'']"

definition PaymentMethods_choices :: "pystr list" where
  "PaymentMethods_choices = [cps ''EFECTIVO'', cps ''TARJETA'', cps ''TRANSFERENCIA'', cps ''OTRO'']"

definition Product_model :: model where
  "Product_model = \<lparr>mname = ''Product'', mfields =
     [model_field ''id'' AutoField,
      model_field ''company'' (ForeignKey ''Company''),
      (model_field ''sku'' CharField)\<lparr>funique := True\<rparr>,
      model_field ''name'' CharField,
      (model_field ''description'' TextField)\<lparr>fnull := True, fblank := True\<rparr>,
      (model_field ''price'' (DecimalField 10 2))\<lparr>fvalidators := [MinValueValidator 0]\<rparr>,
      (model_field ''cost'' (DecimalField 10 2))\<lparr>fvalidators := [MinValueValidator 0]\<rparr>,
      model_field ''category'' CharField,
      (model_field ''is_active'' BooleanField)\<lparr>fdefault := Default (VBool True)\<rparr>],
     unique_together = []\<rparr>"

definition Inventory_model :: model where
  "Inventory_model = \<lparr>mname = ''Inventory'', mfields =
     [model_field ''id'' AutoField,
      model_field ''branch'' (ForeignKey ''Branch''),
      model_field ''product'' (ForeignKey ''Product''),
      (model_field ''stock'' IntegerField)\<lparr>fvalidators := [MinValueValidator 0]\<rparr>,
      (model_field ''reorder_point'' IntegerField)\<lparr>fdefault := Default (VInt 5)\<rparr>],
     unique_together = [[''branch'', ''product'']]\<rparr>"

definition Purchase_model :: model where
  "Purchase_model = \<lparr>mname = ''Purchase'', mfields =
     [model_field ''id'' AutoField,
      model_field ''company'' (ForeignKey ''Company''),
      (model_field ''supplier'' (ForeignKey ''Supplier''))\<lparr>fnull := True\<rparr>,
      model_field ''branch'' (ForeignKey ''Branch''),
      (model_field ''user'' (ForeignKey ''User''))\<lparr>fnull := True\<rparr>,
      (model_field ''total'' (DecimalField 12 2))\<lparr>fdefault := Default (VDec 0)\<rparr>,
      (model_field ''purchase_date'' DateTimeField)\<lparr>fdefault := DefaultNow\<rparr>],
     unique_together = []\<rparr>"

definition PurchaseItem_model :: model where
  "PurchaseItem_model = \<lparr>mname = ''PurchaseItem'', mfields =
     [model_field ''id'' AutoField,
      model_field ''purchase'' (ForeignKey ''Purchase''),
      model_field ''product'' (ForeignKey ''Product''),
      (model_field ''quantity'' IntegerField)\<lparr>fvalidators := [MinValueValidator 1]\<rparr>,
      model_field ''cost_at_purchase'' (DecimalField 10 2)],
     unique_together = []\<rparr>"

definition Sale_model :: model where
  "Sale_model = \<lparr>mname = ''Sale'', mfields =
     [model_field ''id'' AutoField,
      model_field ''company'' (ForeignKey ''Company''),
      model_field ''branch'' (ForeignKey ''Branch''),
      model_field ''user'' (ForeignKey ''User''),
      model_field ''total'' (DecimalField 12 2),
      (model_field ''payment_method'' CharField)\<lparr>fchoices := PaymentMethods_choices\<rparr>,
      (model_field ''created_at'' DateTimeField)\<lparr>fdefault := DefaultNow\<rparr>],
     unique_together = []\<rparr>"

definition SaleItem_model :: model where
  "SaleItem_model = \<lparr>mname = ''SaleItem'', mfields =
     [model_field ''id'' AutoField,
      model_field ''sale'' (ForeignKey ''Sale''),
      model_field ''product'' (ForeignKey ''Product''),
      (model_field ''quantity'' IntegerField)\<lparr>fvalidators := [MinValueValidator 1]\<rparr>,
      model_field ''price_at_sale'' (DecimalField 10 2)],
     unique_together = []\<rparr>"

definition Order_model :: model where
  "Order_model = \<lparr>mname = ''Order'', mfields =
     [model_field ''id'' AutoField,
      model_field ''company'' (ForeignKey ''Company''),
      (model_field ''client_user'' (ForeignKey ''User''))\<lparr>fnull := True, fblank := True\<rparr>,
      model_field ''client_name'' CharField,
      model_field ''client_email'' EmailField,
      (model_field ''status'' CharField)\<lparr>fchoices := OrderStatus_choices,
         fdefault := Default (VStr (cps ''PENDIENTE''))\<rparr>,
      model_field ''total'' (DecimalField 12 2),
      (model_field ''created_at'' DateTimeField)\<lparr>fauto_now_add := True\<rparr>],
     unique_together = []\<rparr>"

definition OrderItem_model :: model where
  "OrderItem_model = \<lparr>mname = ''OrderItem'', mfields =
     [model_field ''id'' AutoField,
      model_field ''order'' (ForeignKey ''Order''),
      model_field ''product'' (ForeignKey ''Product''),
      (model_field ''quantity'' IntegerField)\<lparr>fvalidators := [MinValueValidator 1]\<rparr>,
      model_field ''price_at_order'' (DecimalField 10 2)],
     unique_together = []\<rparr>"

definition CartItem_model :: model where
  "CartItem_model = \<lparr>mname = ''CartItem'', mfields =
     [model_field ''id'' AutoField,
      (model_field ''user'' (ForeignKey ''User''))\<lparr>fnull := True, fblank := True\<rparr>,
      (model_field ''session_key'' CharField)\<lparr>fnull := True, fblank := True\<rparr>,
      model_field ''product'' (ForeignKey ''Product''),
      (model_field ''quantity'' IntegerField)\<lparr>fvalidators := [MinValueValidator 1]\<rparr>,
      (model_field ''added_at'' DateTimeField)\<lparr>fauto_now_add := True\<rparr>],
     unique_together = [[''user'', ''product''], [''session_key'', ''product'']]\<rparr>"

subsection \<open>What the database does with a model\<close>

datatype ferr = Required | Null | Invalid | DoesNotExist | InvalidChoice | MinValue int
  | Custom pystr

text \<open>
  The failures of saving: the serializer's \<open>ValidationError\<close> with the errors of the
  fields, the database's \<open>IntegrityError\<close>, \<open>TypeError\<close> for a keyword argument that is
  not a field of the model, and \<open>ObjectDoesNotExist\<close> for a row that is not there.
\<close>

datatype save_error = ValidationErrors "(string \<times> ferr) list" | IntegrityError | TypeError
  | ObjectDoesNotExist

definition row_id :: "data \<Rightarrow> int" where
  "row_id r = (case map_of r ''id'' of Some (VInt i) \<Rightarrow> i | _ \<Rightarrow> 0)"

definition row_exists :: "db \<Rightarrow> string \<Rightarrow> int \<Rightarrow> bool" where
  "row_exists D m i = list_ex (\<lambda>r. map_of r ''id'' = Some (VInt i)) (D m)"

definition next_id :: "data list \<Rightarrow> int" where
  "next_id rows = fold max (map row_id rows) 0 + 1"

text \<open>
  The value of a field that the caller did not give: the key for the \<open>id\<close>, the default,
  the empty string for a text field without default, and \<open>None\<close> otherwise.
\<close>

definition default_value :: "datetime \<Rightarrow> data list \<Rightarrow> field \<Rightarrow> val" where
  "default_value now rows fd =
     (if ftype fd = AutoField then VInt (next_id rows)
      else case fdefault fd of
             Default v \<Rightarrow> v
           | DefaultNow \<Rightarrow> VTime now
           | NoDefault \<Rightarrow>
               if fnull fd then VNone
               else if ftype fd = CharField \<or> ftype fd = TextField \<or> ftype fd = EmailField
               then VStr []
               else VNone)"

definition new_row :: "datetime \<Rightarrow> data list \<Rightarrow> model \<Rightarrow> data \<Rightarrow> data" where
  "new_row now rows M kwargs =
     map (\<lambda>fd. (fname fd,
            if fauto_now_add fd then VTime now
            else case map_of kwargs (fname fd) of
                   Some v \<Rightarrow> v
                 | None \<Rightarrow> default_value now rows fd))
       (mfields M)"

text \<open>The \<open>NOT NULL\<close> and foreign-key constraints of a row.\<close>

definition null_violation :: "model \<Rightarrow> data \<Rightarrow> bool" where
  "null_violation M row =
     list_ex (\<lambda>fd. \<not> fnull fd \<and> map_of row (fname fd) = Some VNone) (mfields M)"

definition fk_violation :: "db \<Rightarrow> model \<Rightarrow> data \<Rightarrow> bool" where
  "fk_violation D M row =
     list_ex (\<lambda>fd. case ftype fd of
                     ForeignKey m \<Rightarrow>
                       (case map_of row (fname fd) of
                          Some (VInt i) \<Rightarrow> \<not> row_exists D m i
                        | Some VNone \<Rightarrow> False
                        | _ \<Rightarrow> True)
                   | _ \<Rightarrow> False)
       (mfields M)"

text \<open>
  The unique constraints: \<open>unique_together\<close> and the fields with \<open>unique=True\<close>. Two rows
  collide on a constraint when they agree on all its fields and none of the values is
  \<open>NULL\<close>; \<open>NULL\<close> equals nothing, also not another \<open>NULL\<close>.
\<close>

definition constraints :: "model \<Rightarrow> string list list" where
  "constraints M = unique_together M @ map (\<lambda>fd. [fname fd]) (filter funique (mfields M))"

definition collide :: "string list \<Rightarrow> data \<Rightarrow> data \<Rightarrow> bool" where
  "collide fs r row =
     list_all (\<lambda>f. map_of row f \<noteq> None \<and> map_of row f \<noteq> Some VNone \<and> map_of r f = map_of row f) fs"

definition unique_violation :: "model \<Rightarrow> data list \<Rightarrow> data \<Rightarrow> bool" where
  "unique_violation M rows row = list_ex (\<lambda>fs. list_ex (\<lambda>r. collide fs r row) rows) (constraints M)"

text \<open>\<open>Model.objects.create(**kwargs)\<close>: the new database and the new row.\<close>

definition objects_create :: "db \<Rightarrow> datetime \<Rightarrow> model \<Rightarrow> data \<Rightarrow> save_error + db \<times> data" where
  "objects_create D now M kwargs =
     (if list_ex (\<lambda>k. find_field M k = None) (map fst kwargs) then Inl TypeError
      else let row = new_row now (D (mname M)) M kwargs
           in if null_violation M row \<or> fk_violation D M row
                 \<or> unique_violation M (D (mname M)) row
              then Inl IntegrityError
              else Inr (D(mname M := D (mname M) @ [row]), row))"

text \<open>
  \<open>setattr(instance, attr, value)\<close> for each changed field and \<open>instance.save()\<close> on the
  row with the given key.
\<close>

definition changed_row :: "data \<Rightarrow> data \<Rightarrow> data" where
  "changed_row changes old =
     map (\<lambda>(f, v). (f, case map_of changes f of Some v' \<Rightarrow> v' | None \<Rightarrow> v)) old"

definition objects_update :: "db \<Rightarrow> model \<Rightarrow> int \<Rightarrow> data \<Rightarrow> save_error + db" where
  "objects_update D M i changes =
     (case find (\<lambda>r. map_of r ''id'' = Some (VInt i)) (D (mname M)) of
        None \<Rightarrow> Inl ObjectDoesNotExist
      | Some old \<Rightarrow>
          let row = changed_row changes old;
              others = filter (\<lambda>r. map_of r ''id'' \<noteq> Some (VInt i)) (D (mname M))
          in if null_violation M row \<or> fk_violation D M row \<or> unique_violation M others row
             then Inl IntegrityError
             else Inr (D(mname M :=
                    map (\<lambda>r. if map_of r ''id'' = Some (VInt i) then row else r) (D (mname M)))))"

subsection \<open>What a ModelSerializer does with its declaration\<close>

datatype kwarg = Required_kw bool | AllowNull_kw bool

text \<open>
  A serializer class: its model, \<open>Meta.fields\<close>, the fields declared on the class (each
  with its \<open>read_only\<close>), \<open>Meta.read_only_fields\<close>, \<open>Meta.extra_kwargs\<close> and the
  \<open>validate_<field>\<close> methods.
\<close>

record serializer =
  smodel :: model
  sfields :: "string list"
  sdeclared :: "(string \<times> bool) list"
  sread_only_fields :: "string list"
  sextra_kwargs :: "(string \<times> kwarg list) list"
  svalidate :: "(string \<times> (val \<Rightarrow> error + val)) list"

definition extra_kwargs_of :: "serializer \<Rightarrow> string \<Rightarrow> kwarg list" where
  "extra_kwargs_of S f = (case map_of (sextra_kwargs S) f of None \<Rightarrow> [] | Some ks \<Rightarrow> ks)"

text \<open>
  A declared field is read-only as declared; a field built from the model is read-only
  when \<open>Meta.read_only_fields\<close> names it or the model field is not editable (the key,
  \<open>auto_now_add\<close>).
\<close>

definition read_only :: "serializer \<Rightarrow> string \<Rightarrow> bool" where
  "read_only S f =
     (case map_of (sdeclared S) f of
        Some ro \<Rightarrow> ro
      | None \<Rightarrow>
          f \<in> set (sread_only_fields S) \<or>
          (case find_field (smodel S) f of
             None \<Rightarrow> True
           | Some fd \<Rightarrow> ftype fd = AutoField \<or> fauto_now_add fd))"

definition required :: "serializer \<Rightarrow> string \<Rightarrow> bool" where
  "required S f =
     (if Required_kw True \<in> set (extra_kwargs_of S f) then True
      else if Required_kw False \<in> set (extra_kwargs_of S f) then False
      else case find_field (smodel S) f of
             None \<Rightarrow> True
           | Some fd \<Rightarrow> fdefault fd = NoDefault \<and> \<not> fnull fd \<and> \<not> fblank fd)"

definition allow_null :: "serializer \<Rightarrow> string \<Rightarrow> bool" where
  "allow_null S f =
     (if AllowNull_kw True \<in> set (extra_kwargs_of S f) then True
      else if AllowNull_kw False \<in> set (extra_kwargs_of S f) then False
      else case find_field (smodel S) f of None \<Rightarrow> False | Some fd \<Rightarrow> fnull fd)"

text \<open>
  The conversion of a payload value by the kind of the field. A payload carries values of
  the kind the field expects (a number for a key, a decimal in hundredths); checks of
  formats and lengths of texts are left out.
\<close>

definition to_internal_value :: "db \<Rightarrow> field \<Rightarrow> val \<Rightarrow> ferr + val" where
  "to_internal_value D fd v =
     (case ftype fd of
        AutoField \<Rightarrow> (case v of VInt i \<Rightarrow> Inr v | _ \<Rightarrow> Inl Invalid)
      | ForeignKey m \<Rightarrow>
          (case v of
             VInt i \<Rightarrow> if row_exists D m i then Inr v else Inl DoesNotExist
           | _ \<Rightarrow> Inl Invalid)
      | IntegerField \<Rightarrow> (case v of VInt i \<Rightarrow> Inr v | _ \<Rightarrow> Inl Invalid)
      | DecimalField max_digits decimal_places \<Rightarrow>
          (case v of
             VDec d \<Rightarrow> if \<bar>d\<bar> < 10 ^ max_digits then Inr v else Inl Invalid
           | _ \<Rightarrow> Inl Invalid)
      | CharField \<Rightarrow>
          (case v of
             VStr s \<Rightarrow> if fchoices fd = [] \<or> s \<in> set (fchoices fd) then Inr v else Inl InvalidChoice
           | _ \<Rightarrow> Inl Invalid)
      | TextField \<Rightarrow> (case v of VStr s \<Rightarrow> Inr v | _ \<Rightarrow> Inl Invalid)
      | EmailField \<Rightarrow> (case v of VStr s \<Rightarrow> Inr v | _ \<Rightarrow> Inl Invalid)
      | BooleanField \<Rightarrow> (case v of VBool b \<Rightarrow> Inr v | _ \<Rightarrow> Inl Invalid)
      | DateTimeField \<Rightarrow> (case v of VTime t \<Rightarrow> Inr v | _ \<Rightarrow> Inl Invalid))"

text \<open>\<open>MinValueValidator(limit)\<close> on an integer, and on a decimal held in hundredths.\<close>

fun validator_ok :: "validator \<Rightarrow> val \<Rightarrow> bool" where
  "validator_ok (MinValueValidator limit) (VInt i) = (limit \<le> i)"
| "validator_ok (MinValueValidator limit) (VDec d) = (limit * 100 \<le> d)"
| "validator_ok (MinValueValidator limit) v = True"

fun validator_error :: "validator \<Rightarrow> ferr" where
  "validator_error (MinValueValidator limit) = MinValue limit"

text \<open>
  The validation of one field: \<open>None\<close> when the field allows it, else the conversion, the
  validators of the model field, and the \<open>validate_<field>\<close> method of the serializer.
\<close>

definition run_validation :: "db \<Rightarrow> serializer \<Rightarrow> string \<Rightarrow> val \<Rightarrow> ferr + val" where
  "run_validation D S f v =
     (case find_field (smodel S) f of
        None \<Rightarrow> Inr v
      | Some fd \<Rightarrow>
          if v = VNone then (if allow_null S f then Inr VNone else Inl Null)
          else (case to_internal_value D fd v of
                  Inl e \<Rightarrow> Inl e
                | Inr v' \<Rightarrow>
                    (case find (\<lambda>c. \<not> validator_ok c v') (fvalidators fd) of
                       Some c \<Rightarrow> Inl (validator_error c)
                     | None \<Rightarrow>
                         (case map_of (svalidate S) f of
                            None \<Rightarrow> Inr v'
                          | Some g \<Rightarrow>
                              (case g v' of
                                 Inl (ValidationError m) \<Rightarrow> Inl (Custom m)
                               | Inl ValueError \<Rightarrow> Inl Invalid
                               | Inr v'' \<Rightarrow> Inr v'')))))"

text \<open>
  The fields in their order: a read-only field is skipped, a missing field is an error
  when it is required (and the update is not partial), a given field is validated. The
  result is the list of errors and the validated data.
\<close>

fun run_fields :: "db \<Rightarrow> serializer \<Rightarrow> bool \<Rightarrow> string list \<Rightarrow> data \<Rightarrow> (string \<times> ferr) list \<times> data"
  where
  "run_fields D S partial [] p = ([], [])"
| "run_fields D S partial (f # fs) p =
     (let (errs, d) = run_fields D S partial fs p
      in if read_only S f then (errs, d)
         else (case map_of p f of
                 None \<Rightarrow> if required S f \<and> \<not> partial then ((f, Required) # errs, d) else (errs, d)
               | Some v \<Rightarrow>
                   (case run_validation D S f v of
                      Inl e \<Rightarrow> ((f, e) # errs, d)
                    | Inr v' \<Rightarrow> (errs, (f, v') # d))))"

definition validated_data :: "db \<Rightarrow> serializer \<Rightarrow> bool \<Rightarrow> data \<Rightarrow> save_error + data" where
  "validated_data D S partial p =
     (case run_fields D S partial (sfields S) p of
        ([], d) \<Rightarrow> Inr d
      | (e # errs, d) \<Rightarrow> Inl (ValidationErrors (e # errs)))"

text \<open>
  \<open>serializer.save(**kwargs)\<close>: the keyword arguments of the caller go over the validated
  data, and the row is created, or the given row updated.
\<close>

definition serializer_create ::
  "db \<Rightarrow> datetime \<Rightarrow> serializer \<Rightarrow> data \<Rightarrow> data \<Rightarrow> save_error + db \<times> data" where
  "serializer_create D now S p kwargs =
     (case validated_data D S False p of
        Inl e \<Rightarrow> Inl e
      | Inr d \<Rightarrow> objects_create D now (smodel S) (kwargs @ d))"

definition serializer_update ::
  "db \<Rightarrow> serializer \<Rightarrow> int \<Rightarrow> bool \<Rightarrow> data \<Rightarrow> data \<Rightarrow> save_error + db" where
  "serializer_update D S i partial p kwargs =
     (case validated_data D S partial p of
        Inl e \<Rightarrow> Inl e
      | Inr d \<Rightarrow> objects_update D (smodel S) i (kwargs @ d))"

subsection \<open>serializers.py\<close>

definition on_int :: "(int \<Rightarrow> error + int) \<Rightarrow> val \<Rightarrow> error + val" where
  "on_int g v = (case v of VInt i \<Rightarrow> (case g i of Inl e \<Rightarrow> Inl e | Inr j \<Rightarrow> Inr (VInt j)) | _ \<Rightarrow> Inr v)"

definition ProductSerializer :: serializer where
  "ProductSerializer = \<lparr>smodel = Product_model,
     sfields = map fname (mfields Product_model),
     sdeclared = [],
     sread_only_fields = [''company''],
     sextra_kwargs = [],
     svalidate = []\<rparr>"

definition InventorySerializer :: serializer where
  "InventorySerializer = \<lparr>smodel = Inventory_model,
     sfields = [''branch'', ''branch_name'', ''product'', ''product_name'', ''stock'',
                ''reorder_point''],
     sdeclared = [(''product_name'', True), (''branch_name'', True)],
     sread_only_fields = [],
     sextra_kwargs = [],
     svalidate = []\<rparr>"

definition PurchaseItemSerializer :: serializer where
  "PurchaseItemSerializer = \<lparr>smodel = PurchaseItem_model,
     sfields = [''id'', ''product'', ''product_name'', ''quantity'', ''cost_at_purchase''],
     sdeclared = [(''product_name'', True)],
     sread_only_fields = [],
     sextra_kwargs = [(''cost_at_purchase'', [Required_kw True])],
     svalidate = []\<rparr>"

definition SaleItemSerializer :: serializer where
  "SaleItemSerializer = \<lparr>smodel = SaleItem_model,
     sfields = [''id'', ''product'', ''product_name'', ''quantity'', ''price_at_sale''],
     sdeclared = [(''product_name'', True)],
     sread_only_fields = [],
     sextra_kwargs = [(''price_at_sale'', [Required_kw True])],
     svalidate = []\<rparr>"

definition OrderItemSerializer :: serializer where
  "OrderItemSerializer = \<lparr>smodel = OrderItem_model,
     sfields = [''id'', ''product'', ''product_name'', ''quantity'', ''price_at_order''],
     sdeclared = [(''product_name'', True)],
     sread_only_fields = [],
     sextra_kwargs = [(''price_at_order'', [Required_kw True])],
     svalidate = []\<rparr>"

definition OrderSerializer :: serializer where
  "OrderSerializer = \<lparr>smodel = Order_model,
     sfields = [''id'', ''company'', ''client_user'', ''client_username'', ''client_name'',
                ''client_email'', ''status'', ''total'', ''created_at'', ''items''],
     sdeclared = [(''items'', True), (''client_username'', True)],
     sread_only_fields = [''company'', ''total'', ''created_at'', ''status'', ''items''],
     sextra_kwargs = [(''client_user'', [Required_kw False, AllowNull_kw True])],
     svalidate = []\<rparr>"

definition msg_quantity :: pystr where
  "msg_quantity = cps ''La cantidad debe ser al menos 1.''"

definition validate_quantity :: "int \<Rightarrow> error + int" where
  "validate_quantity v = (if v < 1 then Inl (ValidationError msg_quantity) else Inr v)"

definition CartItemSerializer :: serializer where
  "CartItemSerializer = \<lparr>smodel = CartItem_model,
     sfields = [''id'', ''user'', ''session_key'', ''product'', ''product_name'', ''quantity'',
                ''current_price'', ''added_at''],
     sdeclared = [(''product_name'', True), (''current_price'', True)],
     sread_only_fields = [''user'', ''session_key'', ''added_at'', ''current_price''],
     sextra_kwargs = [],
     svalidate = [(''quantity'', on_int validate_quantity)]\<rparr>"

section \<open>The inventory ledger\<close>

text \<open>
  A row of the \<open>Inventory\<close> model of \<open>models.py\<close> as a record: one per branch and product
  (\<open>unique_together = ('branch', 'product')\<close>), with \<open>stock\<close> under
  \<open>MinValueValidator(0)\<close> and \<open>reorder_point\<close> with default 5.
\<close>

record Inventory =
  branch :: nat
  product :: nat
  stock :: int
  reorder_point :: int

definition Inventory_stock_valid :: "Inventory \<Rightarrow> bool" where
  "Inventory_stock_valid r = validator_ok (MinValueValidator 0) (VInt (stock r))"

text \<open>
  The records of the table, keyed by branch and product: the key is unique, as
  \<open>unique_together\<close> has it.
\<close>

type_synonym ledger = "nat \<times> nat \<Rightarrow> Inventory option"

text \<open>
  Modelled from the spec: the failures of the InventoryLedger (sections 4.2 and 7), which
  the source files do not contain: \<open>InsufficientStock\<close> with the shortfall, and
  \<open>NotFound\<close>.
\<close>

datatype ledger_error = InsufficientStock int | NotFound

text \<open>
  Modelled from the spec: \<open>increment(branch, product, qty) -> Ok\<close> of the InventoryLedger
  (section 4.2), which the source files do not contain; it adds \<open>qty\<close> to the stock and
  creates the record with \<open>stock = qty\<close> when it is absent.
\<close>

definition increment :: "ledger \<Rightarrow> nat \<Rightarrow> nat \<Rightarrow> int \<Rightarrow> ledger" where
  "increment L b p qty =
     (case L (b, p) of
        None \<Rightarrow> L((b, p) \<mapsto> \<lparr>branch = b, product = p, stock = qty, reorder_point = 5\<rparr>)
      | Some r \<Rightarrow> L((b, p) \<mapsto> r\<lparr>stock := stock r + qty\<rparr>))"

text \<open>
  Modelled from the spec: \<open>reserveAndDecrement(branch, product, qty) -> Ok |
  InsufficientStock | NotFound\<close> of the InventoryLedger (section 4.2), which the source
  files do not contain; it checks \<open>current_stock >= qty\<close> and otherwise fails, with no
  effect, with the shortfall.
\<close>

definition reserveAndDecrement :: "ledger \<Rightarrow> nat \<Rightarrow> nat \<Rightarrow> int \<Rightarrow> ledger_error + ledger" where
  "reserveAndDecrement L b p qty =
     (case L (b, p) of
        None \<Rightarrow> Inl NotFound
      | Some r \<Rightarrow>
          if stock r \<ge> qty then Inr (L((b, p) \<mapsto> r\<lparr>stock := stock r - qty\<rparr>))
          else Inl (InsufficientStock (qty - stock r)))"

text \<open>
  Modelled from the spec: \<open>restore(branch, product, qty) -> Ok\<close> of the InventoryLedger
  (section 4.2), which the source files do not contain; it returns \<open>qty\<close> to the stock.
  The spec gives it no failure, so on a missing record it does what \<open>increment\<close> does.
\<close>

definition restore :: "ledger \<Rightarrow> nat \<Rightarrow> nat \<Rightarrow> int \<Rightarrow> ledger" where
  "restore L b p qty = increment L b p qty"

text \<open>
  Modelled from the spec: a request to the InventoryLedger (section 4.2), which the source
  files do not contain: an increment, a decrement or a restore, with the branch, the
  product and the quantity.
\<close>

datatype ledger_op = Increment nat nat int | Decrement nat nat int | Restore nat nat int

text \<open>Modelled from the spec: the quantity of a request to the InventoryLedger.\<close>

fun op_qty :: "ledger_op \<Rightarrow> int" where
  "op_qty (Increment b p qty) = qty"
| "op_qty (Decrement b p qty) = qty"
| "op_qty (Restore b p qty) = qty"

text \<open>
  Modelled from the spec: the effect of one request on the ledger; a decrement that fails
  has no effect (section 4.2: it fails atomically).
\<close>

fun apply_ledger_op :: "ledger \<Rightarrow> ledger_op \<Rightarrow> ledger" where
  "apply_ledger_op L (Increment b p qty) = increment L b p qty"
| "apply_ledger_op L (Decrement b p qty) =
     (case reserveAndDecrement L b p qty of Inl e \<Rightarrow> L | Inr L' \<Rightarrow> L')"
| "apply_ledger_op L (Restore b p qty) = restore L b p qty"

text \<open>
  Modelled from the spec: a sequence of requests to the InventoryLedger, applied in the
  order given (section 8: all sequences of increment, decrement and restore operations).
\<close>

fun run_ledger :: "ledger \<Rightarrow> ledger_op list \<Rightarrow> ledger" where
  "run_ledger L [] = L"
| "run_ledger L (x # xs) = run_ledger (apply_ledger_op L x) xs"

text \<open>The invariant: every record is stored under its own key and its stock is valid.\<close>

definition ledger_ok :: "ledger \<Rightarrow> bool" where
  "ledger_ok L =
     (\<forall>b p r. L (b, p) = Some r \<longrightarrow> branch r = b \<and> product r = p \<and> Inventory_stock_valid r)"

section \<open>Notions used by the properties of models and serializers\<close>

text \<open>
  A table respects the unique constraints of its model when, for each constraint, the
  rows that have a value in every field of the constraint differ on it pairwise.
\<close>

definition keyed :: "string list \<Rightarrow> data \<Rightarrow> bool" where
  "keyed fs r = list_all (\<lambda>f. map_of r f \<noteq> None \<and> map_of r f \<noteq> Some VNone) fs"

definition unique_ok :: "model \<Rightarrow> data list \<Rightarrow> bool" where
  "unique_ok M rows =
     list_all (\<lambda>fs. distinct (map (\<lambda>r. map (map_of r) fs) (filter (keyed fs) rows))) (constraints M)"

text \<open>
  The invariant of the cart table: every quantity is at least 1, the unique constraints
  hold, and the keys of the rows differ pairwise.
\<close>

definition quantity_ok :: "data \<Rightarrow> bool" where
  "quantity_ok r = (case map_of r ''quantity'' of Some (VInt q) \<Rightarrow> 1 \<le> q | _ \<Rightarrow> False)"

definition ids_ok :: "data list \<Rightarrow> bool" where
  "ids_ok rows = distinct (map (\<lambda>r. map_of r ''id'') rows)"

definition cart_ok :: "data list \<Rightarrow> bool" where
  "cart_ok rows = (list_all quantity_ok rows \<and> unique_ok CartItem_model rows \<and> ids_ok rows)"

text \<open>
  A field of the product with the given key, and the line-item serializers with the
  field that holds the unit value of the line.
\<close>

definition product_field :: "db \<Rightarrow> int \<Rightarrow> string \<Rightarrow> val option" where
  "product_field D i f =
     (case find (\<lambda>r. map_of r ''id'' = Some (VInt i)) (D ''Product'') of
        None \<Rightarrow> None
      | Some r \<Rightarrow> map_of r f)"

definition item_serializers :: "(serializer \<times> string) list" where
  "item_serializers =
     [(SaleItemSerializer, ''price_at_sale''), (OrderItemSerializer, ''price_at_order''),
      (PurchaseItemSerializer, ''cost_at_purchase'')]"

subsection \<open>Sample data\<close>

text \<open>
  A database with one company, branch, user, product (price 100.00, cost 60.00) and sale,
  the current time, and a payload for an order that tries to set \<open>status\<close>, \<open>total\<close> and
  \<open>items\<close>.
\<close>

definition now0 :: datetime where
  "now0 = \<lparr>ordinal = 739923, micros = 0, utcoffset = 0\<rparr>"

definition D1 :: db where
  "D1 = (\<lambda>t.
     if t = ''Company'' then [[(''id'', VInt 1)]]
     else if t = ''Branch'' then [[(''id'', VInt 1), (''company'', VInt 1)]]
     else if t = ''User'' then [[(''id'', VInt 1), (''company'', VInt 1)]]
     else if t = ''Product'' then
       [[(''id'', VInt 1), (''company'', VInt 1), (''sku'', VStr (cps ''A-1'')),
         (''name'', VStr (cps ''Mate'')), (''description'', VNone), (''price'', VDec 10000),
         (''cost'', VDec 6000), (''category'', VStr (cps ''Bebidas'')), (''is_active'', VBool True)]]
     else if t = ''Sale'' then
       [[(''id'', VInt 1), (''company'', VInt 1), (''branch'', VInt 1), (''user'', VInt 1),
         (''total'', VDec 200), (''payment_method'', VStr (cps ''EFECTIVO'')),
         (''created_at'', VTime now0)]]
     else [])"

definition order_payload :: data where
  "order_payload =
     [(''client_name'', VStr (cps ''Ana'')), (''client_email'', VStr (cps ''ana@example.com'')),
      (''status'', VStr (cps ''ENTREGADO'')), (''total'', VDec 1), (''items'', VList [])]"

section \<open>Properties of the RUT validator\<close>

subsection \<open>Auxiliary facts\<close>

lemma py_int_char_digit: "is_ascii_digit c \<Longrightarrow> py_int_char U c = Inr (digit_val c)"
  by (simp add: is_ascii_digit_def py_int_char_def digit_val_def)

lemma spec_weight_next:
  "(if spec_weight k + 1 > 7 then 2 else spec_weight k + 1) = spec_weight (Suc k)"
  unfolding spec_weight_def by (simp add: mod_Suc) presburger

lemma dv_loop_digits:
  "list_all is_ascii_digit cs \<Longrightarrow>
   dv_loop U cs (spec_weight k) s =
     Inr (s + sum_list (map2 (*) (map digit_val cs) (map spec_weight [k..<k + length cs])))"
proof (induction cs arbitrary: k s)
  case Nil
  then show ?case by simp
next
  case (Cons c cs)
  have d: "is_ascii_digit c" and r: "list_all is_ascii_digit cs" using Cons.prems by simp_all
  have u: "[k..<k + length (c # cs)] = k # [Suc k..<Suc k + length cs]"
    using upt_conv_Cons [of k "Suc (k + length cs)"] by (simp del: upt_Suc)
  have step: "dv_loop U (c # cs) (spec_weight k) s =
      dv_loop U cs (spec_weight (Suc k)) (s + digit_val c * spec_weight k)"
    by (simp only: dv_loop.simps py_int_char_digit [OF d] sum.case spec_weight_next)
  show ?case
    unfolding step u Cons.IH [OF r] by (simp del: upt_Suc)
qed

lemma weighted_sum_zeros:
  "spec_weighted_sum (replicate m 0 @ ds) = spec_weighted_sum ds"
proof -
  have a: "[0..<m + length ds] = [0..<length ds] @ [length ds..<length ds + m]"
    by (metis add.commute upt_add_eq_append zero_le)
  have z: "sum_list (map2 (*) (replicate m (0::int)) ws) = 0" for ws :: "int list"
  proof (induction m arbitrary: ws)
    case 0 show ?case by simp
  next
    case (Suc m) show ?case using Suc by (cases ws) simp_all
  qed
  show ?thesis
    unfolding spec_weighted_sum_def by (simp add: a add.commute z)
qed

lemma str_nat_digit: "n < 10 \<Longrightarrow> str_nat n = [48 + n]"
  by (simp add: str_nat.simps)

lemma zfill_digits:
  "list_all is_ascii_digit b \<Longrightarrow> zfill b 8 = replicate (8 - length b) 48 @ b"
  by (cases b) (auto simp: zfill_def is_ascii_digit_def)

lemma calculate_dv_digits:
  assumes "list_all is_ascii_digit b"
  shows "calculate_dv U b = Inr (spec_dv b)"
proof -
  let ?p = "replicate (8 - length b) 48 @ b"
  have p: "list_all is_ascii_digit ?p"
    using assms by (auto simp: is_ascii_digit_def list_all_iff)
  have m: "map digit_val ?p = spec_pad (map digit_val b)"
    by (simp add: spec_pad_def digit_val_def)
  have rp: "list_all is_ascii_digit (rev ?p)"
    using p by (auto simp: list_all_iff)
  have l: "dv_loop U (rev ?p) 2 0 = Inr (spec_weighted_sum (spec_pad (map digit_val b)))"
    using dv_loop_digits [OF rp, of U 0 0]
    unfolding spec_weighted_sum_def m [symmetric]
    by (simp add: spec_weight_def rev_map add.commute)
  define r where "r = spec_weighted_sum (spec_pad (map digit_val b)) mod 11"
  have rb: "0 \<le> r" "r < 11" by (simp_all add: r_def)
  have s: "11 - r \<noteq> 10 \<Longrightarrow> 11 - r \<noteq> 11 \<Longrightarrow> py_str (11 - r) = [nat (48 + (11 - r))]"
    using rb by (simp add: py_str_def str_nat_digit nat_add_distrib)
  show ?thesis
    unfolding calculate_dv_def zfill_digits [OF assms] Let_def l spec_dv_def
    using s by (simp add: r_def)
qed

lemma spec_pad_sum: "spec_weighted_sum (spec_pad ds) = spec_weighted_sum ds"
  by (simp add: spec_pad_def weighted_sum_zeros)

lemma spec_dv_zero_pad: "spec_dv (replicate k 48 @ b) = spec_dv b"
proof -
  have e: "map digit_val (replicate k 48 @ b) = replicate k 0 @ map digit_val b"
    by (simp add: digit_val_def)
  show ?thesis
    unfolding spec_dv_def e spec_pad_sum weighted_sum_zeros ..
qed


lemma upper_stable_latin1: "upper_stable latin1"
  unfolding upper_stable_def
  by (auto simp: latin1_def py_upper_char_def py_isspace_def split: if_splits)

lemma upper_stableD:
  "upper_stable U \<Longrightarrow> 128 \<le> c \<Longrightarrow> d \<in> set (uc_upper U c) \<Longrightarrow>
   d \<noteq> 45 \<and> d \<noteq> 46 \<and> py_upper_char U d = [d]"
  unfolding upper_stable_def by blast

lemma upper_stableD2:
  "upper_stable U \<Longrightarrow> 128 \<le> c \<Longrightarrow> \<not> uc_isspace U c \<Longrightarrow>
   uc_upper U c \<noteq> [] \<and> \<not> py_isspace U (hd (uc_upper U c)) \<and>
   \<not> py_isspace U (last (uc_upper U c))"
  unfolding upper_stable_def by blast

lemma upper_char_high: "\<not> c < 128 \<Longrightarrow> py_upper_char U c = uc_upper U c"
  by (simp add: py_upper_char_def)

lemma upper_char_fixed:
  assumes "upper_stable U" "d \<in> set (py_upper_char U c)"
  shows "py_upper_char U d = [d]"
proof (cases "c < 128")
  case True
  then show ?thesis using assms(2) by (auto simp: py_upper_char_def split: if_splits)
next
  case False
  then show ?thesis
    using assms upper_stableD [of U c d] by (simp add: upper_char_high)
qed

lemma upper_char_no_dot:
  assumes "upper_stable U" "d \<in> set (py_upper_char U c)" "c \<noteq> 45" "c \<noteq> 46"
  shows "d \<noteq> 45 \<and> d \<noteq> 46"
proof (cases "c < 128")
  case True
  then show ?thesis using assms(2-) by (auto simp: py_upper_char_def split: if_splits)
next
  case False
  then show ?thesis
    using assms upper_stableD [of U c d] by (simp add: upper_char_high)
qed

lemma upper_char_ends:
  assumes "upper_stable U" "\<not> py_isspace U c"
  shows "py_upper_char U c \<noteq> [] \<and> \<not> py_isspace U (hd (py_upper_char U c)) \<and>
         \<not> py_isspace U (last (py_upper_char U c))"
proof (cases "c < 128")
  case True
  then show ?thesis using assms(2) by (auto simp: py_upper_char_def py_isspace_def)
next
  case False
  then have "\<not> uc_isspace U c" using assms(2) by (simp add: py_isspace_def)
  with False show ?thesis
    using assms(1) upper_stableD2 [of U c] by (simp add: upper_char_high)
qed

lemma py_upper_idem:
  assumes "upper_stable U"
  shows "py_upper U (py_upper U s) = py_upper U s"
proof -
  have f: "concat (map (py_upper_char U) t) = t"
    if "\<forall>d \<in> set t. py_upper_char U d = [d]" for t
    using that by (induction t) simp_all
  have "concat (map (py_upper_char U) (py_upper_char U c)) = py_upper_char U c" for c
    by (rule f) (simp add: upper_char_fixed [OF assms])
  then show ?thesis
    unfolding py_upper_def by (induction s) simp_all
qed

lemma py_upper_no_dot:
  assumes "upper_stable U" "\<forall>c \<in> set s. c \<noteq> 45 \<and> c \<noteq> 46"
  shows "\<forall>d \<in> set (py_upper U s). d \<noteq> 45 \<and> d \<noteq> 46"
  using assms(2) upper_char_no_dot [OF assms(1)] unfolding py_upper_def by fastforce

lemma py_strip_trimmed: "trimmed U (py_strip U s)"
proof -
  let ?a = "dropWhile (py_isspace U) s"
  let ?b = "dropWhile (py_isspace U) (rev ?a)"
  show ?thesis
  proof (cases "?b = []")
    case True
    then show ?thesis by (simp add: trimmed_def py_strip_def)
  next
    case False
    then have l: "\<not> py_isspace U (hd ?b)" by (rule hd_dropWhile)
    have an: "?a \<noteq> []"
    proof
      assume "?a = []"
      then have "?b = []" by (simp only: rev.simps dropWhile.simps)
      with False show False ..
    qed
    then have h: "\<not> py_isspace U (hd ?a)" by (rule hd_dropWhile)
    obtain p where p: "rev ?a = p @ ?b"
      by (metis takeWhile_dropWhile_id)
    then have "?a = rev ?b @ rev p" by (metis rev_append rev_rev_ident)
    then have "hd (rev ?b) = hd ?a" using False by (metis hd_append2 rev_is_Nil_conv)
    then show ?thesis
      using False l h by (simp add: trimmed_def py_strip_def last_rev hd_rev)
  qed
qed

lemma py_strip_id: "trimmed U s \<Longrightarrow> py_strip U s = s"
proof (cases "s = []")
  case True
  then show ?thesis by (simp add: py_strip_def)
next
  case False
  assume "trimmed U s"
  with False have h: "\<not> py_isspace U (hd s)" and l: "\<not> py_isspace U (last s)"
    by (simp_all add: trimmed_def)
  have a: "dropWhile (py_isspace U) s = s"
    using False h by (cases s) simp_all
  have b: "dropWhile (py_isspace U) (rev s) = rev s"
    using False l by (cases "rev s") (simp_all add: last_rev [symmetric] hd_rev)
  show ?thesis by (simp add: py_strip_def a b)
qed

lemma py_upper_trimmed:
  assumes "upper_stable U" "trimmed U s"
  shows "trimmed U (py_upper U s)"
proof (cases "s = []")
  case True
  then show ?thesis by (simp add: trimmed_def py_upper_def)
next
  case False
  with assms(2) have h: "\<not> py_isspace U (hd s)" and l: "\<not> py_isspace U (last s)"
    by (simp_all add: trimmed_def)
  obtain c cs where s1: "s = c # cs" using False by (cases s) auto
  obtain bs e where s2: "s = bs @ [e]" using False by (metis append_butlast_last_id)
  have hc: "py_upper_char U c \<noteq> []" "\<not> py_isspace U (hd (py_upper_char U c))"
    using upper_char_ends [OF assms(1), of c] h s1 by simp_all
  have le: "py_upper_char U e \<noteq> []" "\<not> py_isspace U (last (py_upper_char U e))"
    using upper_char_ends [OF assms(1), of e] l s2 by simp_all
  have 1: "hd (py_upper U s) = hd (py_upper_char U c)"
    unfolding s1 py_upper_def using hc(1) by simp
  have 2: "last (py_upper U s) = last (py_upper_char U e)"
    unfolding s2 py_upper_def using le(1) by simp
  have 3: "py_upper U s \<noteq> []"
    unfolding s1 py_upper_def using hc(1) by simp
  show ?thesis
    unfolding trimmed_def 1 2 using hc(2) le(2) by simp
qed

lemma re_sub_id: "\<forall>c \<in> set s. c \<noteq> 45 \<and> c \<noteq> 46 \<Longrightarrow> re_sub_dot_dash s = s"
  unfolding re_sub_dot_dash_def by (induction s) auto

lemma py_strip_subset: "set (py_strip U s) \<subseteq> set s"
  unfolding py_strip_def
  by (metis set_dropWhileD set_rev subsetI)

lemma clean_idem_str:
  assumes "upper_stable U"
  shows "py_upper U (py_strip U (re_sub_dot_dash (py_upper U (py_strip U (re_sub_dot_dash x))))) =
         py_upper U (py_strip U (re_sub_dot_dash x))"
proof -
  define y where "y = py_upper U (py_strip U (re_sub_dot_dash x))"
  let ?z = "py_strip U (re_sub_dot_dash x)"
  have nd: "\<forall>c \<in> set ?z. c \<noteq> 45 \<and> c \<noteq> 46"
    using py_strip_subset [of U "re_sub_dot_dash x"] by (auto simp: re_sub_dot_dash_def)
  have 1: "re_sub_dot_dash y = y"
    unfolding y_def by (rule re_sub_id) (rule py_upper_no_dot [OF assms(1) nd])
  have 2: "py_strip U y = y"
    unfolding y_def by (rule py_strip_id) (rule py_upper_trimmed [OF assms(1) py_strip_trimmed])
  have "py_upper U (py_strip U (re_sub_dot_dash y)) = y"
    unfolding 1 2 unfolding y_def by (rule py_upper_idem [OF assms(1)])
  then show ?thesis unfolding y_def .
qed

lemma py_isdigit_ascii: "body \<noteq> [] \<Longrightarrow> list_all is_ascii_digit body \<Longrightarrow> py_isdigit U body"
  by (auto simp: py_isdigit_def py_isdigit_char_def is_ascii_digit_def list_all_iff)

lemma msg_checksum_contains: "\<exists>p q. msg_checksum v dv = p @ dv @ q"
  unfolding msg_checksum_def by (metis append.assoc)

lemma validate_unfold:
  assumes "clean_rut U (PyStr s) = Inr (body @ [c])" "body \<noteq> []" "list_all is_ascii_digit body"
  shows "validate_chilean_rut U (PyStr s) =
           (if spec_dv body = [c] then Inr (PyStr s)
            else Inl (ValidationError (msg_checksum s (spec_dv body))))"
proof -
  have l: "\<not> length (body @ [c]) < 2" using assms(2) by (cases body) simp_all
  show ?thesis
    unfolding validate_chilean_rut_def assms(1) Let_def
    using l py_isdigit_ascii [OF assms(2,3), of U] calculate_dv_digits [OF assms(3), of U]
    by simp
qed

lemma validate_body_not_digits:
  assumes "clean_rut U (PyStr s) = Inr r" "\<not> py_isdigit U (butlast r)"
  shows "validate_chilean_rut U (PyStr s) = Inl (ValidationError msg_too_short) \<or>
         validate_chilean_rut U (PyStr s) = Inl (ValidationError msg_body)"
  unfolding validate_chilean_rut_def assms(1) Let_def using assms(2) by simp

subsection \<open>The claims about the validator\<close>

text \<open>
  C2. On every body of decimal digits \<open>calculate_dv\<close> returns, and returns the check
  character of the reference algorithm: zero padding to eight digits, the weights
  2, 3, 4, 5, 6, 7 cycling from the least significant digit, \<open>dv = 11 - sum mod 11\<close>,
  \<open>K\<close> for 10, \<open>0\<close> for 11 and the digit otherwise.
\<close>

theorem calculate_dv_refines_spec:
  "list_all is_ascii_digit body \<Longrightarrow> calculate_dv U body = Inr (spec_dv body)"
  by (rule calculate_dv_digits)

theorem calculate_dv_refines_spec_witness:
  "list_all is_ascii_digit (cps ''76086428'') \<and>
   calculate_dv latin1 (cps ''76086428'') = Inr (cps ''5'') \<and>
   spec_dv (cps ''76086428'') = cps ''5''"
proof -
  have d: "list_all is_ascii_digit (cps ''76086428'')"
    by (simp add: cps_def is_ascii_digit_def)
  have v: "spec_dv (cps ''76086428'') = cps ''5''" by code_simp
  show ?thesis
    using d v calculate_dv_refines_spec [OF d, of latin1] by simp
qed

text \<open>
  C10. Zeros in front of a body of decimal digits do not change the check character:
  \<open>calculate_dv('0' * k + b) == calculate_dv(b)\<close>.
\<close>

theorem calculate_dv_zero_padding:
  "list_all is_ascii_digit b \<Longrightarrow> calculate_dv U (replicate k 48 @ b) = calculate_dv U b"
proof -
  assume b: "list_all is_ascii_digit b"
  then have "list_all is_ascii_digit (replicate k 48 @ b)"
    by (auto simp: list_all_iff is_ascii_digit_def)
  then show ?thesis
    by (simp only: calculate_dv_digits b spec_dv_zero_pad)
qed

theorem calculate_dv_zero_padding_witness:
  "list_all is_ascii_digit (cps ''31'') \<and>
   calculate_dv latin1 (cps ''00031'') = calculate_dv latin1 (cps ''31'') \<and>
   calculate_dv latin1 (cps ''31'') = Inr (cps ''0'')"
proof -
  have d: "list_all is_ascii_digit (cps ''31'')"
    by (simp add: cps_def is_ascii_digit_def)
  have r: "cps ''00031'' = replicate 3 48 @ cps ''31''"
    by (simp add: cps_def eval_nat_numeral)
  have v: "calculate_dv latin1 (cps ''31'') = Inr (cps ''0'')" by code_simp
  show ?thesis
    using d v calculate_dv_zero_padding [OF d, of latin1 3] unfolding r by simp
qed

text \<open>
  C7. \<open>clean_rut\<close> is idempotent on every string:
  \<open>clean_rut(clean_rut(x)) == clean_rut(x)\<close>, for any upper-case table that is stable.
\<close>

theorem clean_rut_idempotent:
  "upper_stable U \<Longrightarrow>
   \<exists>y. clean_rut U (PyStr x) = Inr y \<and> clean_rut U (PyStr y) = Inr y"
  using clean_idem_str [of U x] by (simp add: clean_rut_def)

theorem clean_rut_idempotent_witness:
  "upper_stable latin1 \<and>
   clean_rut latin1 (PyStr (cps '' 12.345.678-k '')) = Inr (cps ''12345678K'') \<and>
   clean_rut latin1 (PyStr (cps ''12345678K'')) = Inr (cps ''12345678K'')"
proof -
  have c: "clean_rut latin1 (PyStr (cps '' 12.345.678-k '')) = Inr (cps ''12345678K'')"
    by code_simp
  show ?thesis
    using upper_stable_latin1 c clean_rut_idempotent [OF upper_stable_latin1, of "cps '' 12.345.678-k ''"]
    by simp
qed

text \<open>
  C1. An input whose cleaned form is a non-empty body of decimal digits followed by a check
  character validates, and is returned as it was given, when the check character is the one
  of the modulo-11 algorithm; otherwise validation fails with the checksum error, whose
  message contains the computed check character. Body \<open>76086428\<close> has check character
  \<open>5\<close>: \<open>76086428-5\<close> validates and \<open>76086428-4\<close> fails with a message citing \<open>5\<close>; the
  body \<open>6\<close> has \<open>K\<close> and is accepted with a lower-case \<open>k\<close>; the body \<open>31\<close> has \<open>0\<close>.
\<close>

theorem validate_chilean_rut_checksum:
  assumes "clean_rut U (PyStr s) = Inr (body @ [c])"
    and "body \<noteq> []"
    and "list_all is_ascii_digit body"
  shows "(spec_dv body = [c] \<longrightarrow> validate_chilean_rut U (PyStr s) = Inr (PyStr s)) \<and>
         (spec_dv body \<noteq> [c] \<longrightarrow>
            validate_chilean_rut U (PyStr s) =
              Inl (ValidationError (msg_checksum s (spec_dv body)))) \<and>
         (\<exists>p q. msg_checksum s (spec_dv body) = p @ spec_dv body @ q) \<and>
         spec_dv (cps ''76086428'') = cps ''5'' \<and>
         validate_chilean_rut U (PyStr (cps ''76086428-5'')) = Inr (PyStr (cps ''76086428-5'')) \<and>
         validate_chilean_rut U (PyStr (cps ''76086428-4'')) =
           Inl (ValidationError (msg_checksum (cps ''76086428-4'') (cps ''5''))) \<and>
         validate_chilean_rut U (PyStr (cps ''6-k'')) = Inr (PyStr (cps ''6-k'')) \<and>
         validate_chilean_rut U (PyStr (cps ''31-0'')) = Inr (PyStr (cps ''31-0''))"
proof -
  have v1: "spec_dv (cps ''76086428'') = cps ''5''" by code_simp
  have v2: "spec_dv (cps ''6'') = cps ''K''" by code_simp
  have v3: "spec_dv (cps ''31'') = cps ''0''" by code_simp
  have c1: "clean_rut U (PyStr (cps ''76086428-5'')) = Inr (cps ''76086428'' @ [53])"
    by (simp add: clean_rut_def cps_def re_sub_dot_dash_def py_strip_def py_upper_def
        py_upper_char_def py_isspace_def)
  have c2: "clean_rut U (PyStr (cps ''76086428-4'')) = Inr (cps ''76086428'' @ [52])"
    by (simp add: clean_rut_def cps_def re_sub_dot_dash_def py_strip_def py_upper_def
        py_upper_char_def py_isspace_def)
  have c3: "clean_rut U (PyStr (cps ''6-k'')) = Inr (cps ''6'' @ [75])"
    by (simp add: clean_rut_def cps_def re_sub_dot_dash_def py_strip_def py_upper_def
        py_upper_char_def py_isspace_def)
  have c4: "clean_rut U (PyStr (cps ''31-0'')) = Inr (cps ''31'' @ [48])"
    by (simp add: clean_rut_def cps_def re_sub_dot_dash_def py_strip_def py_upper_def
        py_upper_char_def py_isspace_def)
  have d1: "cps ''76086428'' \<noteq> []" "list_all is_ascii_digit (cps ''76086428'')"
    by (simp_all add: cps_def is_ascii_digit_def)
  have d3: "cps ''6'' \<noteq> []" "list_all is_ascii_digit (cps ''6'')"
    by (simp_all add: cps_def is_ascii_digit_def)
  have d4: "cps ''31'' \<noteq> []" "list_all is_ascii_digit (cps ''31'')"
    by (simp_all add: cps_def is_ascii_digit_def)
  have e1: "validate_chilean_rut U (PyStr (cps ''76086428-5'')) = Inr (PyStr (cps ''76086428-5''))"
    unfolding validate_unfold [OF c1 d1] v1 by (simp add: cps_def)
  have e2: "validate_chilean_rut U (PyStr (cps ''76086428-4'')) =
      Inl (ValidationError (msg_checksum (cps ''76086428-4'') (cps ''5'')))"
    unfolding validate_unfold [OF c2 d1] v1 by (simp add: cps_def)
  have e3: "validate_chilean_rut U (PyStr (cps ''6-k'')) = Inr (PyStr (cps ''6-k''))"
    unfolding validate_unfold [OF c3 d3] v2 by (simp add: cps_def)
  have e4: "validate_chilean_rut U (PyStr (cps ''31-0'')) = Inr (PyStr (cps ''31-0''))"
    unfolding validate_unfold [OF c4 d4] v3 by (simp add: cps_def)
  show ?thesis
    unfolding validate_unfold [OF assms]
    using msg_checksum_contains [of s "spec_dv body"] v1 e1 e2 e3 e4 by simp
qed

theorem validate_chilean_rut_checksum_witness:
  "clean_rut latin1 (PyStr (cps ''12.345.678-5'')) = Inr (cps ''12345678'' @ [53]) \<and>
   cps ''12345678'' \<noteq> [] \<and> list_all is_ascii_digit (cps ''12345678'') \<and>
   spec_dv (cps ''12345678'') = [53] \<and>
   validate_chilean_rut latin1 (PyStr (cps ''12.345.678-5'')) = Inr (PyStr (cps ''12.345.678-5''))"
proof -
  have c: "clean_rut latin1 (PyStr (cps ''12.345.678-5'')) = Inr (cps ''12345678'' @ [53])"
    by code_simp
  have d: "cps ''12345678'' \<noteq> []" "list_all is_ascii_digit (cps ''12345678'')"
    by (simp_all add: cps_def is_ascii_digit_def)
  have v: "spec_dv (cps ''12345678'') = [53]" by code_simp
  show ?thesis
    using c d v validate_chilean_rut_checksum [OF c d] by simp
qed

text \<open>
  C6. The input made of the superscript two and the digit one: \<open>isdigit\<close> accepts the body,
  \<open>int\<close> refuses it inside the loop of \<open>calculate_dv\<close>, and the \<open>ValueError\<close> leaves
  \<open>validate_chilean_rut\<close>.
\<close>

theorem validate_chilean_rut_value_error:
  "validate_chilean_rut latin1 (PyStr [178, 49]) = Inl ValueError"
  by code_simp

section \<open>Properties of the inventory ledger\<close>

lemma increment_ok: "ledger_ok L \<Longrightarrow> 0 \<le> qty \<Longrightarrow> ledger_ok (increment L b p qty)"
  unfolding ledger_ok_def increment_def Inventory_stock_valid_def
  by (auto split: option.splits)

lemma decrement_ok:
  "ledger_ok L \<Longrightarrow> reserveAndDecrement L b p qty = Inr L' \<Longrightarrow> ledger_ok L'"
  unfolding ledger_ok_def reserveAndDecrement_def Inventory_stock_valid_def
  by (auto split: option.splits if_splits)

lemma apply_ledger_op_ok:
  "ledger_ok L \<Longrightarrow> 0 \<le> op_qty x \<Longrightarrow> ledger_ok (apply_ledger_op L x)"
  by (cases x) (auto simp: increment_ok restore_def decrement_ok split: sum.splits)

lemma run_ledger_ok:
  "ledger_ok L \<Longrightarrow> list_all (\<lambda>x. 0 \<le> op_qty x) xs \<Longrightarrow> ledger_ok (run_ledger L xs)"
  by (induction xs arbitrary: L) (simp_all add: apply_ledger_op_ok)

lemma inventory_stock_validation:
  "run_validation D InventorySerializer ''stock'' v0 = Inr v \<Longrightarrow> \<exists>s. v = VInt s \<and> 0 \<le> s"
  by (auto simp: run_validation_def InventorySerializer_def Inventory_model_def model_field_def
      find_field_def allow_null_def extra_kwargs_of_def to_internal_value_def
      split: if_splits val.splits)

text \<open>
  C3. One inventory record per branch and product, and a stock that is never negative:
  from a ledger whose stocks are not negative, every sequence of increment, decrement and
  restore operations with quantities that are not negative leads to such a ledger again; a
  decrement of more than the current stock fails with \<open>InsufficientStock\<close> and the missing
  amount, and leaves the ledger as it was. In the source, a stock that passes the
  validation of \<open>InventorySerializer\<close> is not negative, and the model is unique on branch
  and product.
\<close>

theorem stock_never_negative:
  assumes "ledger_ok L" and "list_all (\<lambda>x. 0 \<le> op_qty x) ops"
  shows "ledger_ok (run_ledger L ops) \<and>
         (\<forall>b p r. run_ledger L ops (b, p) = Some r \<longrightarrow> 0 \<le> stock r) \<and>
         (\<forall>b p r qty. L (b, p) = Some r \<and> stock r < qty \<longrightarrow>
            reserveAndDecrement L b p qty = Inl (InsufficientStock (qty - stock r)) \<and>
            run_ledger L [Decrement b p qty] = L) \<and>
         (\<forall>D v0 v. run_validation D InventorySerializer ''stock'' v0 = Inr v \<longrightarrow>
            (\<exists>s. v = VInt s \<and> 0 \<le> s)) \<and>
         unique_together Inventory_model = [[''branch'', ''product'']]"
proof -
  have 1: "ledger_ok (run_ledger L ops)" by (rule run_ledger_ok [OF assms])
  then have 2: "\<forall>b p r. run_ledger L ops (b, p) = Some r \<longrightarrow> 0 \<le> stock r"
    by (auto simp: ledger_ok_def Inventory_stock_valid_def)
  have 3: "\<forall>b p r qty. L (b, p) = Some r \<and> stock r < qty \<longrightarrow>
            reserveAndDecrement L b p qty = Inl (InsufficientStock (qty - stock r)) \<and>
            run_ledger L [Decrement b p qty] = L"
    by (simp add: reserveAndDecrement_def)
  have 4: "\<forall>D v0 v. run_validation D InventorySerializer ''stock'' v0 = Inr v \<longrightarrow>
            (\<exists>s. v = VInt s \<and> 0 \<le> s)"
    using inventory_stock_validation by blast
  have 5: "unique_together Inventory_model = [[''branch'', ''product'']]"
    by (simp add: Inventory_model_def)
  from 1 2 3 4 5 show ?thesis by blast
qed

theorem stock_never_negative_witness:
  "ledger_ok (increment Map.empty 1 7 7) \<and>
   list_all (\<lambda>x. 0 \<le> op_qty x) [Decrement 1 7 5, Decrement 1 7 5, Restore 1 7 1] \<and>
   ledger_ok (run_ledger (increment Map.empty 1 7 7)
      [Decrement 1 7 5, Decrement 1 7 5, Restore 1 7 1]) \<and>
   map_option stock (run_ledger (increment Map.empty 1 7 7)
      [Decrement 1 7 5, Decrement 1 7 5, Restore 1 7 1] (1, 7)) = Some 3 \<and>
   reserveAndDecrement (run_ledger (increment Map.empty 1 7 7) [Decrement 1 7 5]) 1 7 5
     = Inl (InsufficientStock 3)"
proof -
  have k: "ledger_ok (increment Map.empty 1 7 7)"
    by (simp add: ledger_ok_def increment_def Inventory_stock_valid_def)
  have q: "list_all (\<lambda>x. 0 \<le> op_qty x) [Decrement 1 7 5, Decrement 1 7 5, Restore 1 7 1]"
    by simp
  have d: "reserveAndDecrement (run_ledger (increment Map.empty 1 7 7) [Decrement 1 7 5]) 1 7 5
     = Inl (InsufficientStock 3)"
    by (simp add: increment_def reserveAndDecrement_def)
  have s: "map_option stock (run_ledger (increment Map.empty 1 7 7)
      [Decrement 1 7 5, Decrement 1 7 5, Restore 1 7 1] (1, 7)) = Some 3"
    by (simp add: increment_def reserveAndDecrement_def restore_def)
  show ?thesis
    using k q d s stock_never_negative [OF k q] by blast
qed

section \<open>Properties of the date validators\<close>





section \<open>Properties of the serializers\<close>

subsection \<open>Validated data and saved rows\<close>

lemma run_fields_sound:
  "run_fields D S partial fs p = (errs, d) \<Longrightarrow> (f, v) \<in> set d \<Longrightarrow>
   f \<in> set fs \<and> \<not> read_only S f \<and> (\<exists>v0. map_of p f = Some v0 \<and> run_validation D S f v0 = Inr v)"
proof (induction fs arbitrary: errs d)
  case Nil
  then show ?case by simp
next
  case (Cons g fs)
  obtain errs' d' where r: "run_fields D S partial fs p = (errs', d')"
    by (cases "run_fields D S partial fs p")
  note ih = Cons.IH [OF r]
  show ?case
  proof (cases "read_only S g")
    case True
    with Cons.prems r have "d = d'" by simp
    with ih Cons.prems(2) show ?thesis by auto
  next
    case False
    show ?thesis
    proof (cases "map_of p g")
      case None
      with False Cons.prems r have "d = d'" by (simp split: if_splits)
      with ih Cons.prems(2) show ?thesis by auto
    next
      case (Some v0)
      show ?thesis
      proof (cases "run_validation D S g v0")
        case (Inl e)
        with False Some Cons.prems r have "d = d'" by simp
        with ih Cons.prems(2) show ?thesis by auto
      next
        case (Inr v')
        with False Some Cons.prems r have "d = (g, v') # d'" by simp
        with ih Cons.prems(2) False Some Inr show ?thesis by auto
      qed
    qed
  qed
qed

lemma validated_data_sound:
  assumes "validated_data D S partial p = Inr d" "map_of d f = Some v"
  shows "f \<in> set (sfields S) \<and> \<not> read_only S f \<and>
         (\<exists>v0. map_of p f = Some v0 \<and> run_validation D S f v0 = Inr v)"
proof -
  obtain errs d' where r: "run_fields D S partial (sfields S) p = (errs, d')"
    by (cases "run_fields D S partial (sfields S) p")
  with assms(1) have "d' = d" by (cases errs) (simp_all add: validated_data_def)
  with r run_fields_sound [of D S partial "sfields S" p errs d f v] assms(2) show ?thesis
    by (auto dest: map_of_SomeD)
qed

lemma validated_data_read_only:
  "validated_data D S partial p = Inr d \<Longrightarrow> read_only S f \<Longrightarrow> map_of d f = None"
  using validated_data_sound [of D S partial p d f] by (cases "map_of d f") auto

lemma objects_create_row:
  "objects_create D now M kwargs = Inr (D', row) \<Longrightarrow>
   row = new_row now (D (mname M)) M kwargs \<and> D' = D(mname M := D (mname M) @ [row]) \<and>
   \<not> null_violation M row \<and> \<not> unique_violation M (D (mname M)) row"
  by (auto simp: objects_create_def Let_def split: if_splits)

lemma run_fields_error:
  "f \<in> set fs \<Longrightarrow> \<not> read_only S f \<Longrightarrow> map_of p f = Some v \<Longrightarrow> run_validation D S f v = Inl e \<Longrightarrow>
   fst (run_fields D S partial fs p) \<noteq> []"
proof (induction fs)
  case Nil
  then show ?case by simp
next
  case (Cons g fs)
  obtain errs' d' where r: "run_fields D S partial fs p = (errs', d')"
    by (cases "run_fields D S partial fs p")
  show ?case
  proof (cases "g = f")
    case True
    with Cons.prems r show ?thesis by simp
  next
    case False
    with Cons.prems have "f \<in> set fs" by simp
    from Cons.IH [OF this Cons.prems(2-4)] r have "errs' \<noteq> []" by simp
    then show ?thesis using r by (auto split: option.splits sum.splits)
  qed
qed

lemma validated_data_error:
  assumes "f \<in> set (sfields S)" "\<not> read_only S f" "map_of p f = Some v"
    "run_validation D S f v = Inl e"
  shows "\<exists>errs. validated_data D S partial p = Inl (ValidationErrors errs)"
proof -
  obtain errs d where r: "run_fields D S partial (sfields S) p = (errs, d)"
    by (cases "run_fields D S partial (sfields S) p")
  with run_fields_error [OF assms, of partial] have "errs \<noteq> []" by simp
  with r show ?thesis by (cases errs) (simp_all add: validated_data_def)
qed

lemma run_fields_required:
  "f \<in> set fs \<Longrightarrow> \<not> read_only S f \<Longrightarrow> required S f \<Longrightarrow> map_of p f = None \<Longrightarrow>
   fst (run_fields D S False fs p) \<noteq> []"
proof (induction fs)
  case Nil
  then show ?case by simp
next
  case (Cons g fs)
  obtain errs' d' where r: "run_fields D S False fs p = (errs', d')"
    by (cases "run_fields D S False fs p")
  show ?case
  proof (cases "g = f")
    case True
    with Cons.prems r show ?thesis by simp
  next
    case False
    with Cons.prems have "f \<in> set fs" by simp
    from Cons.IH [OF this Cons.prems(2-4)] r have "errs' \<noteq> []" by simp
    then show ?thesis using r by (auto split: option.splits sum.splits)
  qed
qed

lemma validated_data_required:
  assumes "validated_data D S False p = Inr d" "f \<in> set (sfields S)" "\<not> read_only S f" "required S f"
  shows "\<exists>v. map_of p f = Some v"
proof (rule ccontr)
  assume "\<not> ?thesis"
  then have n: "map_of p f = None" by simp
  obtain errs d' where r: "run_fields D S False (sfields S) p = (errs, d')"
    by (cases "run_fields D S False (sfields S) p")
  with run_fields_required [OF assms(2-4) n, of D] have "errs \<noteq> []" by simp
  with r assms(1) show False by (cases errs) (simp_all add: validated_data_def)
qed

lemma run_fields_complete:
  "distinct fs \<Longrightarrow> f \<in> set fs \<Longrightarrow> \<not> read_only S f \<Longrightarrow> map_of p f = Some v0 \<Longrightarrow>
   run_validation D S f v0 = Inr v \<Longrightarrow> map_of (snd (run_fields D S partial fs p)) f = Some v"
proof (induction fs)
  case Nil
  then show ?case by simp
next
  case (Cons g fs)
  obtain errs' d' where r: "run_fields D S partial fs p = (errs', d')"
    by (cases "run_fields D S partial fs p")
  show ?case
  proof (cases "g = f")
    case True
    with Cons.prems r show ?thesis by simp
  next
    case False
    with Cons.prems have "f \<in> set fs" "distinct fs" by simp_all
    from Cons.IH [OF this(2,1) Cons.prems(3-5)] r have "map_of d' f = Some v" by simp
    then show ?thesis using r False by (auto split: option.splits sum.splits)
  qed
qed

lemma item_unit_validation:
  assumes "(S, u) \<in> set item_serializers" "run_validation D S u v0 = Inr v"
  shows "v = v0 \<and> (\<exists>c. v0 = VDec c)"
  using assms
  by (auto simp: item_serializers_def run_validation_def SaleItemSerializer_def
      OrderItemSerializer_def PurchaseItemSerializer_def SaleItem_model_def OrderItem_model_def
      PurchaseItem_model_def model_field_def find_field_def allow_null_def extra_kwargs_of_def
      to_internal_value_def split: if_splits val.splits)

lemma item_unit_field:
  assumes "(S, u) \<in> set item_serializers"
  shows "u \<in> set (sfields S)" "\<not> read_only S u" "required S u" "distinct (sfields S)"
  using assms
  by (auto simp: item_serializers_def SaleItemSerializer_def
      OrderItemSerializer_def PurchaseItemSerializer_def SaleItem_model_def OrderItem_model_def
      PurchaseItem_model_def model_field_def find_field_def read_only_def required_def extra_kwargs_of_def)

lemma item_row_unit:
  assumes "(S, u) \<in> set item_serializers"
  shows "map_of (new_row now rows (smodel S) kwargs) u =
     Some (case map_of kwargs u of Some v \<Rightarrow> v | None \<Rightarrow> VNone)"
  using assms
  by (auto simp: item_serializers_def SaleItemSerializer_def
      OrderItemSerializer_def PurchaseItemSerializer_def SaleItem_model_def OrderItem_model_def
      PurchaseItem_model_def model_field_def new_row_def default_value_def split: option.splits)

lemma item_validated_unit:
  assumes su: "(S, u) \<in> set item_serializers" and d: "validated_data D S False p = Inr d"
  shows "\<exists>c. map_of p u = Some (VDec c) \<and> map_of d u = Some (VDec c)"
proof -
  obtain v0 where v0: "map_of p u = Some v0"
    using validated_data_required [OF d item_unit_field(1-3) [OF su]] by blast
  obtain errs d' where r: "run_fields D S False (sfields S) p = (errs, d')"
    by (cases "run_fields D S False (sfields S) p")
  with d have e: "errs = []" "d' = d" by (cases errs; simp add: validated_data_def)+
  show ?thesis
  proof (cases "run_validation D S u v0")
    case (Inl x)
    from run_fields_error [OF item_unit_field(1,2) [OF su] v0 Inl, of False] r e
    show ?thesis by simp
  next
    case (Inr v)
    from item_unit_validation [OF su Inr] obtain c where c: "v0 = VDec c" "v = VDec c" by blast
    from run_fields_complete [OF item_unit_field(4,1,2) [OF su] v0 Inr, of False] r e
    have "map_of d u = Some v" by simp
    with v0 c show ?thesis by simp
  qed
qed

lemma objects_update_other:
  "objects_update D M i changes = Inr D' \<Longrightarrow> t \<noteq> mname M \<Longrightarrow> D' t = D t"
  by (auto simp: objects_update_def Let_def split: option.splits if_splits)

subsection \<open>Orders\<close>

lemma order_read_only:
  "read_only OrderSerializer ''status''" "read_only OrderSerializer ''total''"
  "read_only OrderSerializer ''items''"
  by (simp_all add: read_only_def OrderSerializer_def)

lemma order_row_status:
  "map_of kwargs ''status'' = None \<Longrightarrow>
   map_of (new_row now rows Order_model kwargs) ''status'' = Some (VStr (cps ''PENDIENTE''))"
  by (simp add: new_row_def Order_model_def model_field_def default_value_def)

lemma order_row_total:
  "map_of (new_row now rows Order_model kwargs) ''total'' =
     Some (case map_of kwargs ''total'' of Some v \<Rightarrow> v | None \<Rightarrow> VNone)"
  by (simp add: new_row_def Order_model_def model_field_def default_value_def split: option.splits)

text \<open>
  C8. An order created through \<open>OrderSerializer\<close> has the status \<open>PENDIENTE\<close>, whatever the
  payload says: the status field of the model defaults to it, and \<open>status\<close>, \<open>total\<close> and
  \<open>items\<close> are read-only, so they never reach the validated data (the total of the row is
  the one the server passes to \<open>save\<close>). The models of purchases and sales have no status
  field.
\<close>

theorem order_created_pending:
  assumes "serializer_create D now OrderSerializer p kwargs = Inr (D', row)"
    and "map_of kwargs ''status'' = None"
  shows "map_of row ''status'' = Some (VStr (cps ''PENDIENTE'')) \<and>
         map_of row ''total'' = map_of kwargs ''total'' \<and>
         (\<exists>d. validated_data D OrderSerializer False p = Inr d \<and> map_of d ''status'' = None \<and>
              map_of d ''total'' = None \<and> map_of d ''items'' = None) \<and>
         map_option fdefault (find_field Order_model ''status'') = Some (Default (VStr (cps ''PENDIENTE''))) \<and>
         find_field Purchase_model ''status'' = None \<and> find_field Sale_model ''status'' = None"
proof -
  obtain d where d: "validated_data D OrderSerializer False p = Inr d"
    and c: "objects_create D now Order_model (kwargs @ d) = Inr (D', row)"
    using assms(1) by (auto simp: serializer_create_def OrderSerializer_def split: sum.splits)
  have ro: "map_of d ''status'' = None" "map_of d ''total'' = None" "map_of d ''items'' = None"
    using validated_data_read_only [OF d] order_read_only by simp_all
  have row: "row = new_row now (D (mname Order_model)) Order_model (kwargs @ d)"
    and nn: "\<not> null_violation Order_model row"
    using objects_create_row [OF c] by blast+
  have s: "map_of row ''status'' = Some (VStr (cps ''PENDIENTE''))"
    unfolding row by (rule order_row_status) (simp add: assms(2) ro map_add_def)
  have t0: "map_of row ''total'' = Some (case map_of kwargs ''total'' of Some v \<Rightarrow> v | None \<Rightarrow> VNone)"
    unfolding row order_row_total by (simp add: ro map_add_def split: option.splits)
  have "map_of row ''total'' \<noteq> Some VNone"
    using nn by (simp add: null_violation_def Order_model_def model_field_def)
  with t0 have t: "map_of row ''total'' = map_of kwargs ''total''"
    by (cases "map_of kwargs ''total''") simp_all
  have m: "map_option fdefault (find_field Order_model ''status'') = Some (Default (VStr (cps ''PENDIENTE'')))"
    "find_field Purchase_model ''status'' = None" "find_field Sale_model ''status'' = None"
    by (simp_all add: find_field_def Order_model_def Purchase_model_def Sale_model_def model_field_def)
  show ?thesis using s t d ro m by simp
qed

theorem order_created_pending_witness:
  "map_of [(''company'', VInt 1), (''total'', VDec 0)] ''status'' = None \<and>
   map_of order_payload ''status'' = Some (VStr (cps ''ENTREGADO'')) \<and>
   map_sum id (\<lambda>x. map_of (snd x) ''status'')
     (serializer_create D1 now0 OrderSerializer order_payload
        [(''company'', VInt 1), (''total'', VDec 0)])
     = Inr (Some (VStr (cps ''PENDIENTE'')))"
proof -
  have k: "map_of [(''company'', VInt 1), (''total'', VDec 0)] ''status'' = None" by simp
  have p: "map_of order_payload ''status'' = Some (VStr (cps ''ENTREGADO''))"
    by (simp add: order_payload_def)
  have "case serializer_create D1 now0 OrderSerializer order_payload
          [(''company'', VInt 1), (''total'', VDec 0)] of Inl e \<Rightarrow> False | Inr x \<Rightarrow> True"
    by code_simp
  then obtain D' row where c: "serializer_create D1 now0 OrderSerializer order_payload
          [(''company'', VInt 1), (''total'', VDec 0)] = Inr (D', row)"
    by (auto split: sum.splits)
  from order_created_pending [OF c k]
  have "map_of row ''status'' = Some (VStr (cps ''PENDIENTE''))" by blast
  with k p c show ?thesis by simp
qed

subsection \<open>Cart items\<close>

lemma collide_iff:
  "collide fs r row \<longleftrightarrow> keyed fs row \<and> map (map_of r) fs = map (map_of row) fs"
  unfolding collide_def keyed_def by (induction fs) auto

lemma keyed_cong: "map (map_of r) fs = map (map_of row) fs \<Longrightarrow> keyed fs r = keyed fs row"
  unfolding keyed_def by (induction fs) auto

lemma unique_ok_append:
  assumes "unique_ok M rows" "\<not> unique_violation M rows row"
  shows "unique_ok M (rows @ [row])"
proof -
  have "distinct (map (\<lambda>r. map (map_of r) fs) (filter (keyed fs) (rows @ [row])))"
    if fs: "fs \<in> set (constraints M)" for fs
  proof -
    define key where "key r = map (map_of r) fs" for r :: data
    have d: "distinct (map key (filter (keyed fs) rows))"
      using assms(1) fs unfolding key_def by (simp add: unique_ok_def list_all_iff)
    have n: "\<not> collide fs r row" if "r \<in> set rows" for r
      using assms(2) fs that by (auto simp: unique_violation_def list_ex_iff)
    have "distinct (map key (filter (keyed fs) (rows @ [row])))"
    proof (cases "keyed fs row")
      case True
      have "key r \<noteq> key row" if "r \<in> set rows" for r
        using n [OF that] True unfolding key_def by (simp only: collide_iff simp_thms)
      then have "key row \<notin> key ` set (filter (keyed fs) rows)" by force
      with d True show ?thesis by simp
    next
      case False
      with d show ?thesis by simp
    qed
    then show ?thesis unfolding key_def .
  qed
  then show ?thesis by (simp add: unique_ok_def list_all_iff)
qed

lemma cart_quantity_validation:
  "run_validation D CartItemSerializer ''quantity'' v0 = Inr v \<Longrightarrow> \<exists>q. v = VInt q \<and> 1 \<le> q"
  by (auto simp: run_validation_def CartItemSerializer_def CartItem_model_def model_field_def
      find_field_def allow_null_def extra_kwargs_of_def to_internal_value_def on_int_def
      validate_quantity_def
      split: if_splits val.splits sum.splits)

lemma cart_quantity_rejected:
  "q < 1 \<Longrightarrow> run_validation D CartItemSerializer ''quantity'' (VInt q) = Inl (MinValue 1)"
  by (simp add: run_validation_def CartItemSerializer_def CartItem_model_def model_field_def
      find_field_def to_internal_value_def)

lemma cart_row_quantity:
  "map_of (new_row now rows CartItem_model kwargs) ''quantity'' =
     Some (case map_of kwargs ''quantity'' of Some v \<Rightarrow> v | None \<Rightarrow> VNone)"
  by (simp add: new_row_def CartItem_model_def model_field_def default_value_def split: option.splits)

lemma map_of_kwargs_none:
  "list_all (\<lambda>k. k = ''user'' \<or> k = ''session_key'') (map fst kwargs) \<Longrightarrow>
   map_of kwargs ''quantity'' = None"
  by (induction kwargs) (auto simp: list_all_iff)

lemma fold_max_ge: "(m::int) \<le> fold max xs m"
  by (induction xs arbitrary: m) (auto intro: order_trans [OF max.cobounded2])

lemma fold_max_mem: "x \<in> set xs \<Longrightarrow> (x::int) \<le> fold max xs m"
proof (induction xs arbitrary: m)
  case Nil
  then show ?case by simp
next
  case (Cons y ys)
  show ?case
  proof (cases "x = y")
    case True
    have "x \<le> max y m" using True by simp
    also have "\<dots> \<le> fold max ys (max y m)" by (rule fold_max_ge)
    finally show ?thesis by simp
  next
    case False
    with Cons show ?thesis by simp
  qed
qed

lemma next_id_fresh: "r \<in> set rows \<Longrightarrow> map_of r ''id'' \<noteq> Some (VInt (next_id rows))"
proof
  assume r: "r \<in> set rows" and e: "map_of r ''id'' = Some (VInt (next_id rows))"
  then have "row_id r = next_id rows" by (simp add: row_id_def)
  moreover have "row_id r \<le> fold max (map row_id rows) 0"
    using r by (intro fold_max_mem) simp
  ultimately show False by (simp add: next_id_def)
qed

lemma map_of_changed_row:
  "map_of (changed_row c old) f =
     map_option (\<lambda>v. case map_of c f of Some v' \<Rightarrow> v' | None \<Rightarrow> v) (map_of old f)"
  unfolding changed_row_def by (induction old) (auto split: option.splits)

lemma cart_row_id:
  "map_of kwargs ''id'' = None \<Longrightarrow>
   map_of (new_row now rows CartItem_model kwargs) ''id'' = Some (VInt (next_id rows))"
  by (simp add: new_row_def CartItem_model_def model_field_def default_value_def)

lemma ids_ok_append:
  "ids_ok rows \<Longrightarrow> \<forall>r \<in> set rows. map_of r ''id'' \<noteq> map_of row ''id'' \<Longrightarrow> ids_ok (rows @ [row])"
  unfolding ids_ok_def by auto

lemma replace_split:
  assumes "ids_ok rows" "old \<in> set rows" "map_of old ''id'' = Some (VInt i)"
  shows "\<exists>a b. rows = a @ old # b \<and>
           (\<forall>r \<in> set a \<union> set b. map_of r ''id'' \<noteq> Some (VInt i)) \<and>
           map (\<lambda>r. if map_of r ''id'' = Some (VInt i) then row else r) rows = a @ row # b \<and>
           filter (\<lambda>r. map_of r ''id'' \<noteq> Some (VInt i)) rows = a @ b"
proof -
  obtain a b where ab: "rows = a @ old # b" using assms(2) by (auto dest: split_list)
  have n: "\<forall>r \<in> set a \<union> set b. map_of r ''id'' \<noteq> Some (VInt i)"
    using assms(1,3) unfolding ab ids_ok_def by (auto simp: image_iff)
  have 1: "map (\<lambda>r. if map_of r ''id'' = Some (VInt i) then row else r) a = a"
    using n by (induction a) auto
  have 2: "map (\<lambda>r. if map_of r ''id'' = Some (VInt i) then row else r) b = b"
    using n by (induction b) auto
  have 3: "filter (\<lambda>r. map_of r ''id'' \<noteq> Some (VInt i)) a = a"
    using n by (induction a) auto
  have 4: "filter (\<lambda>r. map_of r ''id'' \<noteq> Some (VInt i)) b = b"
    using n by (induction b) auto
  show ?thesis
    using ab n by (intro exI [of _ a] exI [of _ b]) (simp add: 1 2 3 4 assms(3))
qed

lemma unique_ok_replace:
  assumes "unique_ok M (a @ old # b)" "\<not> unique_violation M (a @ b) row"
  shows "unique_ok M (a @ row # b)"
proof -
  have "distinct (map (\<lambda>r. map (map_of r) fs) (filter (keyed fs) (a @ row # b)))"
    if fs: "fs \<in> set (constraints M)" for fs
  proof -
    define key where "key r = map (map_of r) fs" for r :: data
    have d: "distinct (map key (filter (keyed fs) (a @ old # b)))"
      using assms(1) fs unfolding key_def by (simp add: unique_ok_def list_all_iff)
    then have d': "distinct (map key (filter (keyed fs) a) @ map key (filter (keyed fs) b))"
      by (cases "keyed fs old") auto
    have n: "\<not> collide fs r row" if "r \<in> set (a @ b)" for r
      using assms(2) fs that by (auto simp: unique_violation_def list_ex_iff)
    have "distinct (map key (filter (keyed fs) (a @ row # b)))"
    proof (cases "keyed fs row")
      case True
      have "key r \<noteq> key row" if "r \<in> set (a @ b)" for r
        using n [OF that] True unfolding key_def by (simp only: collide_iff simp_thms)
      then have "key row \<notin> key ` set (filter (keyed fs) a)"
        "key row \<notin> key ` set (filter (keyed fs) b)" by force+
      with d' True show ?thesis by auto
    next
      case False
      with d' show ?thesis by simp
    qed
    then show ?thesis unfolding key_def .
  qed
  then show ?thesis by (simp add: unique_ok_def list_all_iff)
qed

lemma objects_update_row:
  assumes "objects_update D M i changes = Inr D'"
  shows "\<exists>old. old \<in> set (D (mname M)) \<and> map_of old ''id'' = Some (VInt i) \<and>
           \<not> unique_violation M (filter (\<lambda>r. map_of r ''id'' \<noteq> Some (VInt i)) (D (mname M)))
                (changed_row changes old) \<and>
           D' = D(mname M := map (\<lambda>r. if map_of r ''id'' = Some (VInt i)
                                      then changed_row changes old else r) (D (mname M)))"
proof (cases "find (\<lambda>r. map_of r ''id'' = Some (VInt i)) (D (mname M))")
  case None
  with assms show ?thesis by (simp add: objects_update_def)
next
  case (Some old)
  then have "old \<in> set (D (mname M))" "map_of old ''id'' = Some (VInt i)"
    by (auto simp: find_Some_iff)
  with assms Some show ?thesis
    by (auto simp: objects_update_def Let_def split: if_splits)
qed


lemma cart_quantity_kept:
  assumes "quantity_ok old" "map_of kwargs ''quantity'' = None"
    and "validated_data D CartItemSerializer partial p = Inr d"
  shows "quantity_ok (changed_row (kwargs @ d) old)"
proof (cases "map_of d ''quantity''")
  case None
  with assms(1,2) show ?thesis
    by (auto simp: quantity_ok_def map_of_changed_row map_add_def split: option.splits val.splits)
next
  case (Some v)
  from validated_data_sound [OF assms(3) Some] cart_quantity_validation
  obtain q where "v = VInt q" "1 \<le> q" by blast
  with Some assms(1,2) show ?thesis
    by (auto simp: quantity_ok_def map_of_changed_row map_add_def split: option.splits val.splits)
qed

lemma map_of_kwargs_id:
  "list_all (\<lambda>k. k = ''user'' \<or> k = ''session_key'') (map fst kwargs) \<Longrightarrow>
   map_of kwargs ''id'' = None"
  by (induction kwargs) (auto simp: list_all_iff)

lemma cart_id_read_only: "read_only CartItemSerializer ''id''"
  by (simp add: read_only_def CartItemSerializer_def CartItem_model_def model_field_def find_field_def)

lemma cart_update_ok:
  assumes ok: "cart_ok (D ''CartItem'')"
    and k: "list_all (\<lambda>k. k = ''user'' \<or> k = ''session_key'') (map fst kwargs)"
    and u: "serializer_update D CartItemSerializer i partial p kwargs = Inr D'"
  shows "cart_ok (D' ''CartItem'')"
proof -
  have mn: "mname CartItem_model = ''CartItem''" by (simp add: CartItem_model_def)
  obtain d where d: "validated_data D CartItemSerializer partial p = Inr d"
    and o: "objects_update D CartItem_model i (kwargs @ d) = Inr D'"
    using u by (auto simp: serializer_update_def CartItemSerializer_def split: sum.splits)
  from objects_update_row [OF o] obtain old where old: "old \<in> set (D ''CartItem'')"
    and oid: "map_of old ''id'' = Some (VInt i)"
    and nu: "\<not> unique_violation CartItem_model
               (filter (\<lambda>r. map_of r ''id'' \<noteq> Some (VInt i)) (D ''CartItem''))
               (changed_row (kwargs @ d) old)"
    and D': "D' = D(''CartItem'' := map (\<lambda>r. if map_of r ''id'' = Some (VInt i)
                                      then changed_row (kwargs @ d) old else r) (D ''CartItem''))"
    unfolding mn by blast
  let ?row = "changed_row (kwargs @ d) old"
  have ids: "ids_ok (D ''CartItem'')" and q: "list_all quantity_ok (D ''CartItem'')"
    and uq: "unique_ok CartItem_model (D ''CartItem'')"
    using ok by (simp_all add: cart_ok_def)
  from replace_split [OF ids old oid, of ?row] obtain a b where
    ab: "D ''CartItem'' = a @ old # b"
    and n: "\<forall>r \<in> set a \<union> set b. map_of r ''id'' \<noteq> Some (VInt i)"
    and r: "map (\<lambda>r. if map_of r ''id'' = Some (VInt i) then ?row else r) (D ''CartItem'') = a @ ?row # b"
    and f: "filter (\<lambda>r. map_of r ''id'' \<noteq> Some (VInt i)) (D ''CartItem'') = a @ b"
    by blast
  have t: "D' ''CartItem'' = a @ ?row # b" unfolding D' r by simp
  have kq: "map_of kwargs ''quantity'' = None" by (rule map_of_kwargs_none [OF k])
  have qo: "quantity_ok old" using q old by (simp add: list_all_iff)
  have 1: "quantity_ok ?row" by (rule cart_quantity_kept [OF qo kq d])
  have di: "map_of d ''id'' = None" by (rule validated_data_read_only [OF d cart_id_read_only])
  have rid: "map_of ?row ''id'' = Some (VInt i)"
    using oid di map_of_kwargs_id [OF k] by (simp add: map_of_changed_row map_add_def)
  have 2: "ids_ok (a @ ?row # b)"
    using ids rid oid unfolding ab ids_ok_def by simp
  have nu': "\<not> unique_violation CartItem_model (a @ b) ?row"
    using nu unfolding f .
  have uq': "unique_ok CartItem_model (a @ old # b)"
    using uq unfolding ab .
  have 3: "unique_ok CartItem_model (a @ ?row # b)"
    by (rule unique_ok_replace [OF uq' nu'])
  have 4: "list_all quantity_ok (a @ ?row # b)"
    using q 1 unfolding ab by simp
  show ?thesis unfolding t using 2 3 4 by (simp add: cart_ok_def)
qed

lemma cart_create_ids:
  assumes ids: "ids_ok (D ''CartItem'')"
    and k: "list_all (\<lambda>k. k = ''user'' \<or> k = ''session_key'') (map fst kwargs)"
    and c: "serializer_create D now CartItemSerializer p kwargs = Inr (D', row)"
  shows "ids_ok (D' ''CartItem'')"
proof -
  have mn: "mname CartItem_model = ''CartItem''" by (simp add: CartItem_model_def)
  obtain d where d: "validated_data D CartItemSerializer False p = Inr d"
    and o: "objects_create D now CartItem_model (kwargs @ d) = Inr (D', row)"
    using c by (auto simp: serializer_create_def CartItemSerializer_def split: sum.splits)
  have row: "row = new_row now (D ''CartItem'') CartItem_model (kwargs @ d)"
    and D': "D' = D(''CartItem'' := D ''CartItem'' @ [row])"
    using objects_create_row [OF o] unfolding mn by blast+
  have di: "map_of d ''id'' = None" by (rule validated_data_read_only [OF d cart_id_read_only])
  have "map_of row ''id'' = Some (VInt (next_id (D ''CartItem'')))"
    unfolding row by (rule cart_row_id) (simp add: di map_of_kwargs_id [OF k] map_add_def)
  then have "\<forall>r \<in> set (D ''CartItem''). map_of r ''id'' \<noteq> map_of row ''id''"
    using next_id_fresh by simp
  from ids_ok_append [OF ids this] show ?thesis by (simp add: D')
qed

text \<open>
  C9. The cart table keeps its invariant when a cart item is created or updated through
  \<open>CartItemSerializer\<close> (the caller of \<open>save\<close> passes the user or the session key): every
  quantity is at least 1 and no two rows share a user and a product, or a session key and a
  product. A payload with a quantity below 1 is refused with a validation error.
\<close>

theorem cart_item_invariants:
  assumes "cart_ok (D ''CartItem'')"
    and "list_all (\<lambda>k. k = ''user'' \<or> k = ''session_key'') (map fst kwargs)"
  shows "(\<forall>D' row. serializer_create D now CartItemSerializer p kwargs = Inr (D', row) \<longrightarrow>
            cart_ok (D' ''CartItem'') \<and> quantity_ok row) \<and>
         (\<forall>D'. serializer_update D CartItemSerializer i partial p kwargs = Inr D' \<longrightarrow>
            cart_ok (D' ''CartItem'')) \<and>
         (\<forall>q. map_of p ''quantity'' = Some (VInt q) \<and> q < 1 \<longrightarrow>
            (\<exists>errs. serializer_create D now CartItemSerializer p kwargs = Inl (ValidationErrors errs)) \<and>
            (\<exists>errs. serializer_update D CartItemSerializer i partial p kwargs
                       = Inl (ValidationErrors errs))) \<and>
         (\<forall>q. validate_quantity q = (if q < 1 then Inl (ValidationError msg_quantity) else Inr q)) \<and>
         unique_together CartItem_model = [[''user'', ''product''], [''session_key'', ''product'']]"
proof -
  have 1: "cart_ok (D' ''CartItem'') \<and> quantity_ok row"
    if c: "serializer_create D now CartItemSerializer p kwargs = Inr (D', row)" for D' row
  proof -
    obtain d where d: "validated_data D CartItemSerializer False p = Inr d"
      and o: "objects_create D now CartItem_model (kwargs @ d) = Inr (D', row)"
      using c by (auto simp: serializer_create_def CartItemSerializer_def split: sum.splits)
    have mn: "mname CartItem_model = ''CartItem''" by (simp add: CartItem_model_def)
    have row: "row = new_row now (D ''CartItem'') CartItem_model (kwargs @ d)"
      and D': "D' = D(''CartItem'' := D ''CartItem'' @ [row])"
      and nn: "\<not> null_violation CartItem_model row"
      and nu: "\<not> unique_violation CartItem_model (D ''CartItem'') row"
      using objects_create_row [OF o] unfolding mn by blast+
    have q0: "map_of row ''quantity'' = Some (case map_of d ''quantity'' of Some v \<Rightarrow> v | None \<Rightarrow> VNone)"
      unfolding row cart_row_quantity
      by (simp add: map_add_def map_of_kwargs_none [OF assms(2)])
    have "map_of row ''quantity'' \<noteq> Some VNone"
      using nn by (simp add: null_violation_def CartItem_model_def model_field_def)
    with q0 obtain v where v: "map_of d ''quantity'' = Some v" "map_of row ''quantity'' = Some v"
      by (cases "map_of d ''quantity''") simp_all
    from validated_data_sound [OF d v(1)] cart_quantity_validation
    obtain q where "v = VInt q" "1 \<le> q" by blast
    with v(2) have qr: "quantity_ok row" by (simp add: quantity_ok_def)
    have "unique_ok CartItem_model (D ''CartItem'' @ [row])"
      using unique_ok_append [OF _ nu] assms(1) by (simp add: cart_ok_def)
    moreover have "ids_ok (D' ''CartItem'')"
      using cart_create_ids [OF _ assms(2) c] assms(1) by (simp add: cart_ok_def)
    ultimately show ?thesis using qr assms(1) by (simp add: cart_ok_def D')
  qed
  have 2: "\<exists>errs. serializer_create D now CartItemSerializer p kwargs = Inl (ValidationErrors errs)"
    if "map_of p ''quantity'' = Some (VInt q)" "q < 1" for q
  proof -
    have "\<exists>errs. validated_data D CartItemSerializer False p = Inl (ValidationErrors errs)"
      by (rule validated_data_error [OF _ _ that(1) cart_quantity_rejected [OF that(2)]])
         (simp_all add: CartItemSerializer_def read_only_def CartItem_model_def model_field_def find_field_def)
    then show ?thesis by (auto simp: serializer_create_def)
  qed
  have 5: "\<exists>errs. serializer_update D CartItemSerializer i partial p kwargs
                      = Inl (ValidationErrors errs)"
    if "map_of p ''quantity'' = Some (VInt q)" "q < 1" for q
  proof -
    have "\<exists>errs. validated_data D CartItemSerializer partial p = Inl (ValidationErrors errs)"
      by (rule validated_data_error [OF _ _ that(1) cart_quantity_rejected [OF that(2)]])
         (simp_all add: CartItemSerializer_def read_only_def CartItem_model_def model_field_def
           find_field_def)
    then show ?thesis by (auto simp: serializer_update_def)
  qed
  have 4: "cart_ok (D' ''CartItem'')"
    if "serializer_update D CartItemSerializer i partial p kwargs = Inr D'" for D'
    by (rule cart_update_ok [OF assms that])
  have 3: "unique_together CartItem_model = [[''user'', ''product''], [''session_key'', ''product'']]"
    by (simp add: CartItem_model_def)
  show ?thesis using 1 2 3 4 5 by (simp add: validate_quantity_def)
qed

theorem cart_item_invariants_witness:
  "cart_ok (D1 ''CartItem'') \<and>
   list_all (\<lambda>k. k = ''user'' \<or> k = ''session_key'') (map fst [(''user'', VInt 1)]) \<and>
   (case serializer_create D1 now0 CartItemSerializer
           [(''product'', VInt 1), (''quantity'', VInt 2)] [(''user'', VInt 1)] of
      Inl e \<Rightarrow> False
    | Inr x \<Rightarrow> cart_ok (fst x ''CartItem'') \<and> quantity_ok (snd x)) \<and>
   map_sum id snd (serializer_create D1 now0 CartItemSerializer
       [(''product'', VInt 1), (''quantity'', VInt 0)] [(''user'', VInt 1)])
     = Inl (ValidationErrors [(''quantity'', MinValue 1)])"
proof -
  have a: "cart_ok (D1 ''CartItem'')"
    by (simp add: D1_def cart_ok_def unique_ok_def ids_ok_def list_all_iff)
  have k: "list_all (\<lambda>k. k = ''user'' \<or> k = ''session_key'') (map fst [(''user'', VInt 1)])"
    by simp
  have "case serializer_create D1 now0 CartItemSerializer
           [(''product'', VInt 1), (''quantity'', VInt 2)] [(''user'', VInt 1)] of
          Inl e \<Rightarrow> False | Inr x \<Rightarrow> True"
    by code_simp
  then obtain D' row where c: "serializer_create D1 now0 CartItemSerializer
           [(''product'', VInt 1), (''quantity'', VInt 2)] [(''user'', VInt 1)] = Inr (D', row)"
    by (auto split: sum.splits)
  have r: "map_sum id snd (serializer_create D1 now0 CartItemSerializer
       [(''product'', VInt 1), (''quantity'', VInt 0)] [(''user'', VInt 1)])
     = Inl (ValidationErrors [(''quantity'', MinValue 1)])"
    by code_simp
  from cart_item_invariants [where D = D1 and kwargs = "[(''user'', VInt 1)]" and now = now0
      and p = "[(''product'', VInt 1), (''quantity'', VInt 2)]", OF a k] c
  have "cart_ok (D' ''CartItem'') \<and> quantity_ok row" by blast
  with a k c r show ?thesis by simp
qed

subsection \<open>Line items\<close>

text \<open>
  C4, as the claim states it, fails: a sale item for the product with price 100.00 is
  accepted and stored with the unit price 1.00 that the payload gives.
\<close>

theorem sale_item_price_not_from_product:
  "product_field D1 1 ''price'' = Some (VDec 10000) \<and>
   map_sum id snd (serializer_create D1 now0 SaleItemSerializer
     [(''product'', VInt 1), (''quantity'', VInt 2), (''price_at_sale'', VDec 100)]
     [(''sale'', VInt 1)])
   = Inr [(''id'', VInt 1), (''sale'', VInt 1), (''product'', VInt 1), (''quantity'', VInt 2),
          (''price_at_sale'', VDec 100)]"
  by code_simp

text \<open>
  C4, amended. The unit value of a line item (\<open>price_at_sale\<close>, \<open>price_at_order\<close>,
  \<open>cost_at_purchase\<close>) is a required value of the payload of the line item; validation
  passes it on as it is and the created row stores it. It is stored on the line item, and
  an update of a product changes no other table: the stored line items and documents,
  with their unit values and totals, stay as they are.
\<close>

theorem unit_value_supplied_and_kept:
  "(\<forall>(S, u) \<in> set item_serializers.
      (\<forall>d. validated_data D S False p = Inr d \<longrightarrow>
           (\<exists>c. map_of p u = Some (VDec c) \<and> map_of d u = Some (VDec c))) \<and>
      (\<forall>D' row. serializer_create D now S p kwargs = Inr (D', row) \<and> map_of kwargs u = None \<longrightarrow>
           map_of row u = map_of p u)) \<and>
   (\<forall>D'. serializer_update D ProductSerializer i partial q kw = Inr D' \<longrightarrow>
      (\<forall>t. t \<noteq> ''Product'' \<longrightarrow> D' t = D t))"
proof -
  have a: "\<exists>c. map_of p u = Some (VDec c) \<and> map_of d u = Some (VDec c)"
    if "(S, u) \<in> set item_serializers" "validated_data D S False p = Inr d" for S u d
    using item_validated_unit [OF that] .
  have b: "map_of row u = map_of p u"
    if su: "(S, u) \<in> set item_serializers"
      and c: "serializer_create D now S p kwargs = Inr (D', row)" and k: "map_of kwargs u = None"
    for S u D' row
  proof -
    obtain d where d: "validated_data D S False p = Inr d"
      and o: "objects_create D now (smodel S) (kwargs @ d) = Inr (D', row)"
      using c by (auto simp: serializer_create_def split: sum.splits)
    from a [OF su d] obtain c where pc: "map_of p u = Some (VDec c)" "map_of d u = Some (VDec c)"
      by blast
    have "row = new_row now (D (mname (smodel S))) (smodel S) (kwargs @ d)"
      using objects_create_row [OF o] by blast
    then show ?thesis
      using item_row_unit [OF su, of now "D (mname (smodel S))" "kwargs @ d"] k pc
      by (simp add: map_add_def)
  qed
  have c: "D' t = D t"
    if u: "serializer_update D ProductSerializer i partial q kw = Inr D'" and ne: "t \<noteq> ''Product''"
    for D' t
  proof -
    obtain d where "objects_update D Product_model i (kw @ d) = Inr D'"
      using u by (auto simp: serializer_update_def ProductSerializer_def split: sum.splits)
    from objects_update_other [OF this, of t] ne show ?thesis
      by (simp add: Product_model_def)
  qed
  show ?thesis using a b c by blast
qed

theorem unit_value_supplied_and_kept_witness:
  "(SaleItemSerializer, ''price_at_sale'') \<in> set item_serializers \<and>
   map_sum id (\<lambda>x. map_of (snd x) ''price_at_sale'')
     (serializer_create D1 now0 SaleItemSerializer
        [(''product'', VInt 1), (''quantity'', VInt 2), (''price_at_sale'', VDec 100)]
        [(''sale'', VInt 1)])
     = Inr (Some (VDec 100)) \<and>
   (case serializer_update D1 ProductSerializer 1 True [(''price'', VDec 20000)] [] of
      Inl e \<Rightarrow> False
    | Inr D' \<Rightarrow> product_field D' 1 ''price'' = Some (VDec 20000) \<and> D' ''Sale'' = D1 ''Sale'')"
proof -
  have m: "(SaleItemSerializer, ''price_at_sale'') \<in> set item_serializers"
    by (simp add: item_serializers_def)
  have "case serializer_create D1 now0 SaleItemSerializer
        [(''product'', VInt 1), (''quantity'', VInt 2), (''price_at_sale'', VDec 100)]
        [(''sale'', VInt 1)] of Inl e \<Rightarrow> False | Inr x \<Rightarrow> True"
    by code_simp
  then obtain D' row where c: "serializer_create D1 now0 SaleItemSerializer
        [(''product'', VInt 1), (''quantity'', VInt 2), (''price_at_sale'', VDec 100)]
        [(''sale'', VInt 1)] = Inr (D', row)"
    by (auto split: sum.splits)
  have "case serializer_update D1 ProductSerializer 1 True [(''price'', VDec 20000)] [] of
      Inl e \<Rightarrow> False | Inr D' \<Rightarrow> product_field D' 1 ''price'' = Some (VDec 20000)"
    by code_simp
  then obtain D'' where u: "serializer_update D1 ProductSerializer 1 True [(''price'', VDec 20000)] []
      = Inr D''" and f: "product_field D'' 1 ''price'' = Some (VDec 20000)"
    by (auto split: sum.splits)
  note t = unit_value_supplied_and_kept [where D = D1 and now = now0
      and p = "[(''product'', VInt 1), (''quantity'', VInt 2), (''price_at_sale'', VDec 100)]"
      and kwargs = "[(''sale'', VInt 1)]" and i = 1 and partial = True
      and q = "[(''price'', VDec 20000)]" and kw = "[]"]
  from t m c have "map_of row ''price_at_sale'' = Some (VDec 100)" by force
  moreover from t u have "D'' ''Sale'' = D1 ''Sale''" by force
  ultimately show ?thesis using m c u f by simp
qed

end
